theory Spec2Isabelle
  imports Main "HOL-Library.AList" "HOL-Library.Word" "HOL-Library.Countable"
begin

section \<open>Amount arithmetic\<close>

text \<open>
  Ledger amounts travel as decimal strings and are summed as Go \<^verbatim>\<open>big.Int\<close> values, which
  are unbounded: they are HOL integers here. \<^verbatim>\<open>SetString(s, 10)\<close> reads an optional sign,
  then at least one decimal digit, and fails unless the whole string is consumed;
  \<^verbatim>\<open>String()\<close> prints the decimal digits, with a leading minus sign below zero.
\<close>

definition digitVal :: "char \<Rightarrow> nat option" where
  "digitVal c = (let n = (of_char c :: nat) in if 48 \<le> n \<and> n \<le> 57 then Some (n - 48) else None)"

fun scanDigits :: "nat \<Rightarrow> string \<Rightarrow> nat option" where
  "scanDigits acc [] = Some acc"
| "scanDigits acc (c # cs) =
     (case digitVal c of None \<Rightarrow> None | Some d \<Rightarrow> scanDigits (acc * 10 + d) cs)"

definition natFromString :: "string \<Rightarrow> nat option" where
  "natFromString s = (if s = [] then None else scanDigits 0 s)"

definition bigIntSetString :: "string \<Rightarrow> int option" where
  "bigIntSetString s =
     (case s of
        [] \<Rightarrow> None
      | c # cs \<Rightarrow>
          if c = CHR ''-'' then map_option (\<lambda>n. - int n) (natFromString cs)
          else if c = CHR ''+'' then map_option int (natFromString cs)
          else map_option int (natFromString s))"

definition digitChar :: "nat \<Rightarrow> char" where
  "digitChar d = ''0123456789'' ! d"

function natString :: "nat \<Rightarrow> string" where
  "natString n = (if n < 10 then [digitChar n] else natString (n div 10) @ [digitChar (n mod 10)])"
  by pat_completeness auto
termination
  by (relation "measure (\<lambda>n. n)") auto

definition bigIntString :: "int \<Rightarrow> string" where
  "bigIntString i = (if i < 0 then CHR ''-'' # natString (nat (- i)) else natString (nat i))"

section \<open>Errors, time and the aggregate records\<close>

datatype error =
    ErrAggregateIntervalCountTooLarge
  | ErrFailedToParseStringAsBigInt
  | ErrSearchQueryTooShort
  | ErrInvalidAmount
  | StorageError string

text \<open>
  A \<^verbatim>\<open>time.Time\<close> is the number of nanoseconds since the Unix epoch, a \<^verbatim>\<open>time.Duration\<close> a
  number of nanoseconds. The zero \<^verbatim>\<open>Time\<close> is 1 January of year 1, and \<^verbatim>\<open>Sub\<close> saturates at
  the bounds of a 64-bit duration.
\<close>

definition zeroTime :: int where
  "zeroTime = - 62135596800 * 1000000000"

definition IsZero :: "int \<Rightarrow> bool" where
  "IsZero t = (t = zeroTime)"

definition Unix :: "int \<Rightarrow> int" where
  "Unix t = t div 1000000000"

definition timeUnix :: "int \<Rightarrow> int" where
  "timeUnix s = s * 1000000000"

definition Sub :: "int \<Rightarrow> int \<Rightarrow> int" where
  "Sub t u =
     (let d = t - u in
      if d > 2 ^ 63 - 1 then 2 ^ 63 - 1 else if d < - (2 ^ 63) then - (2 ^ 63) else d)"

definition MaxAggregateIntervalCount :: int where
  "MaxAggregateIntervalCount = 20000"

section \<open>Durations in seconds: float64 arithmetic\<close>

text \<open>
  \<^verbatim>\<open>Duration.Seconds()\<close> and the quotient of two such values are computed in float64. A
  finite float64 is the rational number it denotes, and every float64 operation is the
  exact operation followed by \<open>float64\<close>, rounding to the nearest number with a 53-bit
  significand, ties to the even significand. A duration is a 64-bit count of nanoseconds,
  the divisor of the one quotient taken is at least one second in magnitude, so every value
  that arises is zero or of magnitude between \<^verbatim>\<open>1e-19\<close> and \<^verbatim>\<open>1e10\<close>: overflow, subnormal
  numbers, infinities and NaN do not arise and are not modelled.
\<close>

text \<open>The number of binary digits of a positive integer.\<close>

function bitLen :: "int \<Rightarrow> int" where
  "bitLen n = (if n \<le> 0 then 0 else 1 + bitLen (n div 2))"
  by pat_completeness auto
termination
  by (relation "measure nat") auto

text \<open>The binary exponent of \<open>x \<noteq> 0\<close>: the \<open>e\<close> with \<open>2 powi e \<le> \<bar>x\<bar>\<close> and \<open>\<bar>x\<bar> < 2 powi (e + 1)\<close>.\<close>

definition floorLog2 :: "rat \<Rightarrow> int" where
  "floorLog2 x =
     (let (p, q) = quotient_of \<bar>x\<bar>;
          e = bitLen p - bitLen q
      in if 2 powi e \<le> \<bar>x\<bar> then e else e - 1)"

definition roundHalfEven :: "rat \<Rightarrow> int" where
  "roundHalfEven x =
     (let f = \<lfloor>x\<rfloor>; r = x - of_int f
      in if r < 1 / 2 then f else if 1 / 2 < r then f + 1 else if even f then f else f + 1)"

definition float64 :: "rat \<Rightarrow> rat" where
  "float64 x =
     (if x = 0 then 0
      else let e = floorLog2 x - 52 in of_int (roundHalfEven (x / 2 powi e)) * 2 powi e)"

text \<open>Go's integer \<^verbatim>\<open>/\<close> and \<^verbatim>\<open>%\<close> truncate towards zero.\<close>

definition quo :: "int \<Rightarrow> int \<Rightarrow> int" where
  "quo a b = sgn a * sgn b * (\<bar>a\<bar> div \<bar>b\<bar>)"

definition rem :: "int \<Rightarrow> int \<Rightarrow> int" where
  "rem a b = a - b * quo a b"

text \<open>
  \<^verbatim>\<open>func (d Duration) Seconds() float64\<close>:
  \<^verbatim>\<open>sec := d / Second; nsec := d % Second; return float64(sec) + float64(nsec)/1e9\<close>.
\<close>

definition Seconds :: "int \<Rightarrow> rat" where
  "Seconds d =
     (let sec = quo d 1000000000;
          nsec = rem d 1000000000
      in float64 (float64 (of_int sec) + float64 (float64 (of_int nsec) / 1000000000)))"

text \<open>The conversion \<^verbatim>\<open>int64(f)\<close> of a float64 discards the fraction.\<close>

definition int64OfFloat :: "rat \<Rightarrow> int" where
  "int64OfFloat f = (if f < 0 then \<lceil>f\<rceil> else \<lfloor>f\<rfloor>)"

section \<open>Entities\<close>

text \<open>
  The rows and views the reader assembles, with the columns the queries select. Identifiers
  and addresses are strings. Several structures share field names, as in the source;
  a shared name is written with its record (\<open>Output.ID\<close>, \<open>Transaction.ID\<close>). An
  embedded struct is a record extension (\<open>ListMetadata\<close> in the list results).
\<close>

record Output =
  ID :: string
  TransactionID :: string
  OutputIndex :: nat
  AssetID :: string
  OutputType :: nat
  Amount :: string
  Locktime :: nat
  Threshold :: nat
  CreatedAt :: int
  RedeemingTransactionID :: string
  GroupID :: nat
  Payload :: string
  Addresses :: "string list"

record OutputAddress =
  OutputID :: string
  Address :: string
  Signature :: string
  PublicKey :: string
  CreatedAt :: int

record compositeRecord =
  Output :: Output
  OutputAddress :: OutputAddress

record InputCredentials =
  Address :: string
  PublicKey :: string
  Signature :: string

record Input =
  Output :: Output
  Creds :: "InputCredentials list"

record Transaction =
  ID :: string
  ChainID :: string
  Type :: string
  Memo :: string
  CreatedAt :: int
  Inputs :: "Input list"
  Outputs :: "Output list"
  InputTotals :: "(string \<times> string) list"
  OutputTotals :: "(string \<times> string) list"

record Asset =
  ID :: string
  ChainID :: string
  Name :: string
  Symbol :: string
  Alias :: string
  Denomination :: nat
  CurrentSupply :: string
  CreatedAt :: int

record AssetInfo =
  AssetID :: string
  TransactionCount :: "64 word"
  TotalReceived :: string
  TotalSent :: string
  Balance :: string
  UTXOCount :: "64 word"

record AddressInfo =
  Address :: string
  PublicKey :: string
  Assets :: "(string \<times> AssetInfo) list"

record ListMetadata =
  Count :: "64 word"

record TransactionList = ListMetadata +
  Transactions :: "Transaction list"

record AssetList = ListMetadata +
  Assets :: "Asset list"

record AddressList = ListMetadata +
  Addresses :: "AddressInfo list"

record OutputList = ListMetadata +
  Outputs :: "Output list"

datatype SearchResultType = ResultTypeAsset | ResultTypeAddress | ResultTypeTransaction

datatype SearchData = AssetData Asset | AddressData AddressInfo | TransactionData Transaction

record SearchResult =
  SearchResultType :: SearchResultType
  Data :: SearchData

record SearchResults =
  Count :: "64 word"
  Results :: "SearchResult list"

section \<open>Parameter objects\<close>

text \<open>
  \<open>ListParams\<close> carries the pagination and the counting flag that the readers consult; each
  reader's parameter object embeds it and adds its filters. The query-parameter library
  that turns a parameter object into clauses of a storage query is an external
  collaborator: a query is recorded with the parameter object it was built from.
\<close>

record ListParams =
  Limit :: int
  Offset :: int
  DisableCounting :: bool

text \<open>
  A \<^verbatim>\<open>TransactionSort\<close> is a number; which numbers the named orders are is decided in the
  parameter package (see \<open>externals\<close> below). The zero value of the type is 0.
\<close>

type_synonym TransactionSort = nat

record ListTransactionsParams = ListParams +
  ID :: "string option"
  Query :: string
  Sort :: TransactionSort

record ListAssetsParams = ListParams +
  ID :: "string option"
  Alias :: string
  Query :: string

record ListAddressesParams = ListParams +
  Address :: "string option"
  Query :: string

record ListOutputsParams = ListParams +
  ID :: "string option"

record SearchParams = ListParams +
  Query :: string

text \<open>\<^verbatim>\<open>p.ListParams = params.ListParams{}\<close>: the embedded struct is set to its zero value.\<close>

definition clearListParams :: "'a ListParams_scheme \<Rightarrow> 'a ListParams_scheme" where
  "clearListParams p = p\<lparr>Limit := 0, Offset := 0, DisableCounting := False\<rparr>"

text \<open>
  What the source takes from other packages: the two identifier parsers, whether a
  transaction listing needs \<^verbatim>\<open>DISTINCT\<close>, the sort-order constants and the global
  page-size cap. Their values are parameters of the model.
\<close>

record externals =
  AddressFromString :: "string \<Rightarrow> string option"
  IDFromString :: "string \<Rightarrow> string option"
  NeedsDistinct :: "ListTransactionsParams \<Rightarrow> bool"
  TransactionSortTimestampAsc :: TransactionSort
  TransactionSortTimestampDesc :: TransactionSort
  TransactionSortDefault :: TransactionSort
  PaginationMaxLimit :: int

definition MinSearchQueryLength :: nat where
  "MinSearchQueryLength = 1"

record AggregateParams =
  paramStartTime :: int
  paramEndTime :: int
  paramIntervalSize :: int
  ChainIDs :: "string list"

record Aggregates =
  Idx :: int
  StartTime :: int
  EndTime :: int
  TransactionVolume :: string
  TransactionCount :: "64 word"
  AddressCount :: "64 word"
  AssetCount :: "64 word"
  OutputCount :: "64 word"

record AggregatesHistogram =
  Aggregates :: Aggregates
  IntervalSize :: int
  Intervals :: "Aggregates list"

definition zeroAggregates :: Aggregates where
  "zeroAggregates =
     \<lparr>Idx = 0, StartTime = zeroTime, EndTime = zeroTime, TransactionVolume = [],
      TransactionCount = 0, AddressCount = 0, AssetCount = 0, OutputCount = 0\<rparr>"

definition zeroHistogram :: AggregatesHistogram where
  "zeroHistogram = \<lparr>Aggregates = zeroAggregates, IntervalSize = 0, Intervals = []\<rparr>"

section \<open>Storage\<close>

text \<open>
  The reader only reads. Each storage round trip is a value of \<open>query\<close>, and a call returns
  the list of round trips it made, in order, beside its result. What the storage answers
  is a parameter: one response function per query, each giving rows or a storage error.
\<close>

datatype orderClause = OrderAsc string | OrderDesc string

datatype query =
    FirstTransactionTimeQuery "string list"
  | AggregatesQuery AggregateParams int int
  | TransactionsQuery ListTransactionsParams bool "orderClause list"
  | CountTransactionsQuery ListTransactionsParams bool
  | AssetsQuery ListAssetsParams
  | CountAssetsQuery ListAssetsParams
  | AddressesQuery ListAddressesParams
  | CountAddressesQuery ListAddressesParams
  | OutputsQuery ListOutputsParams
  | OutputAddressesQuery "string list"
  | CountOutputsQuery ListOutputsParams
  | TransactionOutputsQuery "string list"
  | TransactionInputsQuery "string list"
  | AddressAssetsQuery "string list"

record storage =
  loadFirstTransactionTime :: "string list \<Rightarrow> error + int"
  loadAggregates :: "AggregateParams \<Rightarrow> int \<Rightarrow> int \<Rightarrow> error + Aggregates list"
  loadTransactions ::
    "ListTransactionsParams \<Rightarrow> bool \<Rightarrow> orderClause list \<Rightarrow> error + Transaction list"
  countTransactions :: "ListTransactionsParams \<Rightarrow> bool \<Rightarrow> error + 64 word"
  loadAssets :: "ListAssetsParams \<Rightarrow> error + Asset list"
  countAssets :: "ListAssetsParams \<Rightarrow> error + 64 word"
  loadAddresses :: "ListAddressesParams \<Rightarrow> error + AddressInfo list"
  countAddresses :: "ListAddressesParams \<Rightarrow> error + 64 word"
  loadOutputs :: "ListOutputsParams \<Rightarrow> error + Output list"
  loadOutputAddresses :: "string list \<Rightarrow> error + OutputAddress list"
  countOutputs :: "ListOutputsParams \<Rightarrow> error + 64 word"
  loadTransactionOutputs :: "string list \<Rightarrow> error + compositeRecord list"
  loadTransactionInputs :: "string list \<Rightarrow> error + compositeRecord list"
  loadAddressAssets :: "string list \<Rightarrow> error + (string \<times> AssetInfo) list"

section \<open>The aggregation histogram builder\<close>

definition getFirstTransactionTime :: "storage \<Rightarrow> string list \<Rightarrow> query list \<times> (error + int)" where
  "getFirstTransactionTime db chainIDs =
     ([FirstTransactionTimeQuery chainIDs],
      case loadFirstTransactionTime db chainIDs of
        Inl e \<Rightarrow> Inl e
      | Inr ts \<Rightarrow> Inr (timeUnix ts))"

text \<open>\<^verbatim>\<open>int64(params.IntervalSize.Seconds())\<close>\<close>

definition intervalSecondsOf :: "AggregateParams \<Rightarrow> int" where
  "intervalSecondsOf params = int64OfFloat (Seconds (paramIntervalSize params))"

text \<open>
  \<^verbatim>\<open>int(math.Ceil(params.EndTime.Sub(params.StartTime).Seconds() / params.IntervalSize.Seconds()))\<close>:
  the quotient is a float64 division, \<^verbatim>\<open>math.Ceil\<close> is exact. The source evaluates it only
  when \<open>intervalSeconds\<close> is not zero, so the divisor is not zero.
\<close>

definition ceilIntervalCount :: "AggregateParams \<Rightarrow> int" where
  "ceilIntervalCount params =
     \<lceil>float64 (Seconds (Sub (paramEndTime params) (paramStartTime params)) /
               Seconds (paramIntervalSize params))\<rceil>"

definition timesForInterval :: "AggregateParams \<Rightarrow> int \<Rightarrow> int \<Rightarrow> int \<times> int" where
  "timesForInterval params intervalSeconds intervalIdx =
     (let startTS = Unix (paramStartTime params) + intervalIdx * intervalSeconds
      in (timeUnix startTS, timeUnix (startTS + intervalSeconds - 1)))"

definition emptyInterval :: "AggregateParams \<Rightarrow> int \<Rightarrow> int \<Rightarrow> Aggregates" where
  "emptyInterval params intervalSeconds i =
     zeroAggregates
       \<lparr>Idx := i,
        StartTime := fst (timesForInterval params intervalSeconds i),
        EndTime := snd (timesForInterval params intervalSeconds i)\<rparr>"

function padTo :: "AggregateParams \<Rightarrow> int \<Rightarrow> Aggregates list \<Rightarrow> int \<Rightarrow> Aggregates list" where
  "padTo params intervalSeconds sl to =
     (if int (length sl) < to
      then padTo params intervalSeconds
             (sl @ [emptyInterval params intervalSeconds (int (length sl))]) to
      else sl)"
  by pat_completeness auto
termination
  by (relation "measure (\<lambda>(params, intervalSeconds, sl, to). nat (to - int (length sl)))") auto

text \<open>
  The loop over the rows the storage returned: pad up to the row's index, stamp the row
  with its bucket's times, parse its volume and add it to the running totals, append it.
  The state is the histogram under construction and the running \<^verbatim>\<open>totalVolume\<close>.
\<close>

fun collectIntervals ::
  "AggregateParams \<Rightarrow> int \<Rightarrow> Aggregates list \<Rightarrow> AggregatesHistogram \<times> int \<Rightarrow>
   error + (AggregatesHistogram \<times> int)" where
  "collectIntervals params intervalSeconds [] st = Inr st"
| "collectIntervals params intervalSeconds (interval # rest) (aggs, totalVolume) =
     (let padded = padTo params intervalSeconds (Intervals aggs) (Idx interval);
          interval' = interval
            \<lparr>StartTime := fst (timesForInterval params intervalSeconds (Idx interval)),
             EndTime := snd (timesForInterval params intervalSeconds (Idx interval))\<rparr>
      in case bigIntSetString (TransactionVolume interval') of
           None \<Rightarrow> Inl ErrFailedToParseStringAsBigInt
         | Some intervalVolume \<Rightarrow>
             collectIntervals params intervalSeconds rest
               (aggs
                  \<lparr>Aggregates := (Aggregates aggs)
                     \<lparr>TransactionCount :=
                        TransactionCount (Aggregates aggs) + TransactionCount interval',
                      OutputCount := OutputCount (Aggregates aggs) + OutputCount interval',
                      AddressCount := AddressCount (Aggregates aggs) + AddressCount interval',
                      AssetCount := AssetCount (Aggregates aggs) + AssetCount interval'\<rparr>,
                   Intervals := padded @ [interval']\<rparr>,
                totalVolume + intervalVolume))"

definition buildHistogram ::
  "AggregateParams \<Rightarrow> int \<Rightarrow> int \<Rightarrow> Aggregates list \<Rightarrow> error + AggregatesHistogram" where
  "buildHistogram params intervalSeconds requestedIntervalCount intervals =
     (let aggs = \<lparr>Aggregates = zeroAggregates
                     \<lparr>StartTime := paramStartTime params, EndTime := paramEndTime params\<rparr>,
                  IntervalSize = paramIntervalSize params,
                  Intervals = []\<rparr>
      in case collectIntervals params intervalSeconds intervals (aggs, 0) of
           Inl e \<Rightarrow> Inl e
         | Inr (aggs', totalVolume) \<Rightarrow>
             Inr (aggs'
                    \<lparr>Aggregates := (Aggregates aggs')
                       \<lparr>TransactionVolume := bigIntString totalVolume\<rparr>,
                     Intervals :=
                       padTo params intervalSeconds (Intervals aggs') requestedIntervalCount\<rparr>))"

definition requestedIntervalCountOf :: "AggregateParams \<Rightarrow> int" where
  "requestedIntervalCountOf params =
     (if intervalSecondsOf params \<noteq> 0
      then (if ceilIntervalCount params < 1 then 1 else ceilIntervalCount params)
      else 0)"

text \<open>
  \<^verbatim>\<open>Aggregate\<close> first replaces an unset start time by the time of the first transaction,
  which takes a storage round trip of its own (\<open>resolveStartTime\<close>; the source writes the
  result into the caller's parameter object). \<open>aggregateFrom\<close> is the rest of the
  function, from the interval-count check on.
\<close>

definition resolveStartTime ::
  "storage \<Rightarrow> AggregateParams \<Rightarrow> query list \<times> (error + AggregateParams)" where
  "resolveStartTime db params =
     (if IsZero (paramStartTime params)
      then (case getFirstTransactionTime db (ChainIDs params) of
              (log, Inl e) \<Rightarrow> (log, Inl e)
            | (log, Inr t) \<Rightarrow> (log, Inr (params\<lparr>paramStartTime := t\<rparr>)))
      else ([], Inr params))"

definition aggregateFrom ::
  "storage \<Rightarrow> AggregateParams \<Rightarrow> query list \<times> (error + AggregatesHistogram)" where
  "aggregateFrom db params =
     (let intervalSeconds = intervalSecondsOf params in
      if intervalSeconds \<noteq> 0 \<and> ceilIntervalCount params > MaxAggregateIntervalCount
      then ([], Inl ErrAggregateIntervalCountTooLarge)
      else
        let requestedIntervalCount = requestedIntervalCountOf params
        in ([AggregatesQuery params requestedIntervalCount intervalSeconds],
            case loadAggregates db params requestedIntervalCount intervalSeconds of
              Inl e \<Rightarrow> Inl e
            | Inr intervals \<Rightarrow>
                if requestedIntervalCount = 0
                then (case intervals of
                        [] \<Rightarrow> Inr zeroHistogram
                      | first # _ \<Rightarrow>
                          Inr (zeroHistogram
                                 \<lparr>Aggregates := first
                                    \<lparr>StartTime := paramStartTime params,
                                     EndTime := paramEndTime params\<rparr>\<rparr>))
                else buildHistogram params intervalSeconds requestedIntervalCount intervals))"

definition Aggregate ::
  "storage \<Rightarrow> AggregateParams \<Rightarrow> query list \<times> (error + AggregatesHistogram)" where
  "Aggregate db params =
     (case resolveStartTime db params of
        (log, Inl e) \<Rightarrow> (log, Inl e)
      | (log, Inr params') \<Rightarrow>
          (let (log', r) = aggregateFrom db params' in (log @ log', r)))"

section \<open>The transaction dressing engine\<close>

text \<open>
  A Go map is an association list with one entry per key, in insertion order
  (\<open>AList.update\<close> replaces the value of a present key and appends an absent one). Go
  iterates a map in an unspecified order; the model iterates in insertion order, and the
  theorems below speak only of what the lists hold, not of their order.

  The working rows are shared objects: the per-transaction maps hold pointers to them,
  and the second pass writes the address list into each. A pointer is the index of the row
  in the merged list, which is the store.
\<close>

definition lookupOrEmpty :: "('k \<times> 'v list) list \<Rightarrow> 'k \<Rightarrow> 'v list" where
  "lookupOrEmpty m k = (case map_of m k of None \<Rightarrow> [] | Some v \<Rightarrow> v)"

text \<open>\<^verbatim>\<open>if _, ok := m[k]; !ok { m[k] = map[...]...{} }\<close>\<close>

definition ensureKey :: "'k \<Rightarrow> ('k \<times> 'v list) list \<Rightarrow> ('k \<times> 'v list) list" where
  "ensureKey k m = (if map_of m k = None then AList.update k [] m else m)"

text \<open>\<^verbatim>\<open>m[k1][k2] = v\<close>\<close>

definition setNested ::
  "'k \<Rightarrow> 'j \<Rightarrow> 'v \<Rightarrow> ('k \<times> ('j \<times> 'v) list) list \<Rightarrow> ('k \<times> ('j \<times> 'v) list) list" where
  "setNested k1 k2 v m = AList.update k1 (AList.update k2 v (lookupOrEmpty m k1)) m"

definition addToBigIntMap :: "(string \<times> int) list \<Rightarrow> string \<Rightarrow> int \<Rightarrow> (string \<times> int) list" where
  "addToBigIntMap m assetID amt =
     (let prevAmt = (case map_of m assetID of None \<Rightarrow> 0 | Some prev \<Rightarrow> prev)
      in AList.update assetID (amt + prevAmt) m)"

record InputRef =
  refOutput :: nat
  refCreds :: "InputCredentials list"

record dressMaps =
  outputAddrs :: "(string \<times> string list) list"
  inputsMap :: "(string \<times> (string \<times> InputRef) list) list"
  outputsMap :: "(string \<times> (string \<times> nat) list) list"
  inputTotalsMap :: "(string \<times> (string \<times> int) list) list"
  outputTotalsMap :: "(string \<times> (string \<times> int) list) list"

definition emptyDressMaps :: dressMaps where
  "emptyDressMaps =
     \<lparr>outputAddrs = [], inputsMap = [], outputsMap = [], inputTotalsMap = [],
      outputTotalsMap = []\<rparr>"

text \<open>The body of the first loop, for the row at index \<open>i\<close> whose amount parsed to \<open>bigAmt\<close>.\<close>

definition collectOutput :: "nat \<Rightarrow> compositeRecord \<Rightarrow> int \<Rightarrow> dressMaps \<Rightarrow> dressMaps" where
  "collectOutput i output bigAmt m =
     (let out = compositeRecord.Output output;
          m1 = m\<lparr>inputsMap := ensureKey (RedeemingTransactionID out) (inputsMap m),
                 inputTotalsMap := ensureKey (RedeemingTransactionID out) (inputTotalsMap m),
                 outputsMap := ensureKey (TransactionID out) (outputsMap m),
                 outputTotalsMap := ensureKey (TransactionID out) (outputTotalsMap m),
                 outputAddrs := ensureKey (Output.ID out) (outputAddrs m)\<rparr>
      in m1\<lparr>outputAddrs :=
               AList.update (Output.ID out)
                 (List.insert (OutputAddress.Address (compositeRecord.OutputAddress output))
                    (lookupOrEmpty (outputAddrs m1) (Output.ID out)))
                 (outputAddrs m1),
             outputsMap := setNested (TransactionID out) (Output.ID out) i (outputsMap m1),
             inputsMap :=
               setNested (RedeemingTransactionID out) (Output.ID out)
                 \<lparr>refOutput = i, refCreds = []\<rparr> (inputsMap m1),
             outputTotalsMap :=
               AList.update (TransactionID out)
                 (addToBigIntMap (lookupOrEmpty (outputTotalsMap m1) (TransactionID out))
                    (Output.AssetID out) bigAmt)
                 (outputTotalsMap m1),
             inputTotalsMap :=
               AList.update (RedeemingTransactionID out)
                 (addToBigIntMap
                    (lookupOrEmpty (inputTotalsMap m1) (RedeemingTransactionID out))
                    (Output.AssetID out) bigAmt)
                 (inputTotalsMap m1)\<rparr>)"

fun collectOutputs :: "nat \<Rightarrow> compositeRecord list \<Rightarrow> dressMaps \<Rightarrow> error + dressMaps" where
  "collectOutputs i [] m = Inr m"
| "collectOutputs i (output # rest) m =
     (case bigIntSetString (Amount (compositeRecord.Output output)) of
        None \<Rightarrow> Inl ErrInvalidAmount
      | Some bigAmt \<Rightarrow> collectOutputs (Suc i) rest (collectOutput i output bigAmt m))"

text \<open>
  The inner loop of the second pass: the first input of the redeeming transaction whose
  output has the row's \<^verbatim>\<open>OutputID\<close> gets the credential, and the loop stops.
\<close>

fun appendCreds ::
  "compositeRecord list \<Rightarrow> string \<Rightarrow> InputCredentials \<Rightarrow> (string \<times> InputRef) list \<Rightarrow>
   (string \<times> InputRef) list" where
  "appendCreds outputs outputID cred [] = []"
| "appendCreds outputs outputID cred ((k, input) # rest) =
     (if Output.ID (compositeRecord.Output (outputs ! refOutput input)) = outputID
      then (k, input\<lparr>refCreds := refCreds input @ [cred]\<rparr>) # rest
      else (k, input) # appendCreds outputs outputID cred rest)"

text \<open>The body of the second loop, for the row at index \<open>i\<close>.\<close>

definition collectAddresses ::
  "(string \<times> string list) list \<Rightarrow>
   compositeRecord list \<times> (string \<times> (string \<times> InputRef) list) list \<Rightarrow> nat \<Rightarrow>
   compositeRecord list \<times> (string \<times> (string \<times> InputRef) list) list" where
  "collectAddresses addrs st i =
     (let outputs = fst st;
          inputs = snd st;
          out = outputs ! i;
          out' = out\<lparr>compositeRecord.Output := (compositeRecord.Output out)
                   \<lparr>Output.Addresses :=
                      lookupOrEmpty addrs (Output.ID (compositeRecord.Output out))\<rparr>\<rparr>;
          outputs' = outputs[i := out'];
          oa = compositeRecord.OutputAddress out
      in if length (OutputAddress.Signature oa) = 0 then (outputs', inputs)
         else (case map_of inputs (RedeemingTransactionID (compositeRecord.Output out)) of
                 None \<Rightarrow> (outputs', inputs)
               | Some txInputs \<Rightarrow>
                   (outputs',
                    AList.update (RedeemingTransactionID (compositeRecord.Output out))
                      (appendCreds outputs' (OutputAddress.OutputID oa)
                         \<lparr>InputCredentials.Address = OutputAddress.Address oa,
                          PublicKey = OutputAddress.PublicKey oa,
                          Signature = OutputAddress.Signature oa\<rparr>
                         txInputs)
                      inputs)))"

text \<open>The body of the last loop: what is attached to one transaction of the batch.\<close>

definition attachDressing ::
  "compositeRecord list \<Rightarrow> dressMaps \<Rightarrow> Transaction \<Rightarrow> Transaction" where
  "attachDressing outputs m tx =
     tx\<lparr>Inputs := Inputs tx @
           map (\<lambda>(k, input).
                  \<lparr>Input.Output = compositeRecord.Output (outputs ! refOutput input),
                   Creds = refCreds input\<rparr>)
             (lookupOrEmpty (inputsMap m) (Transaction.ID tx)),
        Transaction.Outputs := Transaction.Outputs tx @
           map (\<lambda>(k, i). compositeRecord.Output (outputs ! i))
             (lookupOrEmpty (outputsMap m) (Transaction.ID tx)),
        InputTotals :=
           map (\<lambda>(k, v). (k, bigIntString v))
             (lookupOrEmpty (inputTotalsMap m) (Transaction.ID tx)),
        OutputTotals :=
           map (\<lambda>(k, v). (k, bigIntString v))
             (lookupOrEmpty (outputTotalsMap m) (Transaction.ID tx))\<rparr>"

text \<open>The three passes over the merged rows.\<close>

definition dressRows :: "compositeRecord list \<Rightarrow> Transaction list \<Rightarrow> error + Transaction list" where
  "dressRows outputs txs =
     (case collectOutputs 0 outputs emptyDressMaps of
        Inl e \<Rightarrow> Inl e
      | Inr m \<Rightarrow>
          (let st = foldl (collectAddresses (outputAddrs m)) (outputs, inputsMap m)
                      [0..<length outputs]
           in Inr (map (attachDressing (fst st) (m\<lparr>inputsMap := snd st\<rparr>)) txs)))"

definition dressTransactions ::
  "storage \<Rightarrow> Transaction list \<Rightarrow> query list \<times> (error + Transaction list)" where
  "dressTransactions db txs =
     (if length txs = 0 then ([], Inr txs)
      else
        let txIDs = map Transaction.ID txs in
        case loadTransactionOutputs db txIDs of
          Inl e \<Rightarrow> ([TransactionOutputsQuery txIDs], Inl e)
        | Inr outputs \<Rightarrow>
            (case loadTransactionInputs db txIDs of
               Inl e \<Rightarrow> ([TransactionOutputsQuery txIDs, TransactionInputsQuery txIDs], Inl e)
             | Inr inputs \<Rightarrow>
                 ([TransactionOutputsQuery txIDs, TransactionInputsQuery txIDs],
                  dressRows (outputs @ inputs) txs)))"

section \<open>The address dressing engine\<close>

text \<open>
  \<^verbatim>\<open>addrsByID\<close> maps an address to the last entry of the batch that carries it; each row
  of the grouped query is written into that entry's asset map.
\<close>

definition lastIndexOf :: "string \<Rightarrow> AddressInfo list \<Rightarrow> nat option" where
  "lastIndexOf a addrs =
     map_of (rev (zip (map AddressInfo.Address addrs) [0..<length addrs])) a"

definition attachAssetRow :: "AddressInfo list \<Rightarrow> string \<times> AssetInfo \<Rightarrow> AddressInfo list" where
  "attachAssetRow addrs row =
     (case lastIndexOf (fst row) addrs of
        None \<Rightarrow> addrs
      | Some i \<Rightarrow>
          addrs[i := (addrs ! i)
            \<lparr>AddressInfo.Assets :=
               AList.update (AssetInfo.AssetID (snd row)) (snd row)
                 (AddressInfo.Assets (addrs ! i))\<rparr>])"

definition dressAddresses ::
  "storage \<Rightarrow> AddressInfo list \<Rightarrow> query list \<times> (error + AddressInfo list)" where
  "dressAddresses db addrs =
     (if length addrs = 0 then ([], Inr addrs)
      else
        let addrIDs = map AddressInfo.Address addrs in
        ([AddressAssetsQuery addrIDs],
         case loadAddressAssets db addrIDs of
           Inl e \<Rightarrow> Inl e
         | Inr rows \<Rightarrow>
             Inr (foldl attachAssetRow (map (\<lambda>addr. addr\<lparr>AddressInfo.Assets := []\<rparr>) addrs) rows)))"

section \<open>The entity list readers\<close>

text \<open>
  Every reader ends with the same counting block. With counting enabled the count is
  \<^verbatim>\<open>uint64(p.Offset) + uint64(len(rows))\<close>, and when the page is at least as long as the
  limit the embedded \<open>ListParams\<close> of the caller's parameter object is cleared and a
  count query, built from the cleared object, overwrites the count. A reader returns the
  parameter object as the call leaves it, the round trips, and the result.
\<close>

definition countRows ::
  "'a ListParams_scheme \<Rightarrow> nat \<Rightarrow> ('a ListParams_scheme \<Rightarrow> query) \<Rightarrow>
   ('a ListParams_scheme \<Rightarrow> error + 64 word) \<Rightarrow>
   'a ListParams_scheme \<times> query list \<times> (error + 64 word)" where
  "countRows p n countQuery loadOne =
     (if \<not> DisableCounting p
      then (if int n \<ge> Limit p
            then (let p' = clearListParams p in (p', [countQuery p'], loadOne p'))
            else (p, [], Inr (word_of_int (Offset p) + word_of_nat n)))
      else (p, [], Inr 0))"

text \<open>
  \<^verbatim>\<open>applySort\<close> calls itself with the default order on an unrecognised sort value, so it
  returns only if the default order is itself a recognised one: not returning is \<open>None\<close>.
\<close>

partial_function (option) applySort ::
  "externals \<Rightarrow> string \<Rightarrow> TransactionSort \<Rightarrow> orderClause list option" where
  "applySort ext query sortBy =
     (if query \<noteq> [] then Some []
      else if sortBy = TransactionSortTimestampAsc ext
      then Some [OrderAsc ''avm_transactions.chain_id'',
                 OrderAsc ''avm_transactions.created_at'']
      else if sortBy = TransactionSortTimestampDesc ext
      then Some [OrderAsc ''avm_transactions.chain_id'',
                 OrderDesc ''avm_transactions.created_at'']
      else applySort ext query (TransactionSortDefault ext))"

definition listTransactionsSorted ::
  "externals \<Rightarrow> storage \<Rightarrow> ListTransactionsParams \<Rightarrow> orderClause list \<Rightarrow>
   ListTransactionsParams \<times> query list \<times> (error + TransactionList)" where
  "listTransactionsSorted ext db p order =
     (let q = TransactionsQuery p (NeedsDistinct ext p) order in
      case loadTransactions db p (NeedsDistinct ext p) order of
        Inl e \<Rightarrow> (p, [q], Inl e)
      | Inr txs \<Rightarrow>
          (case countRows p (length txs)
                  (\<lambda>p'. CountTransactionsQuery p' (NeedsDistinct ext p'))
                  (\<lambda>p'. countTransactions db p' (NeedsDistinct ext p')) of
             (p', log, Inl e) \<Rightarrow> (p', q # log, Inl e)
           | (p', log, Inr count) \<Rightarrow>
               (case dressTransactions db txs of
                  (log', Inl e) \<Rightarrow> (p', q # log @ log', Inl e)
                | (log', Inr txs') \<Rightarrow>
                    (p', q # log @ log',
                     Inr \<lparr>ListMetadata.Count = count, Transactions = txs'\<rparr>))))"

definition ListTransactions ::
  "externals \<Rightarrow> storage \<Rightarrow> ListTransactionsParams \<Rightarrow>
   (ListTransactionsParams \<times> query list \<times> (error + TransactionList)) option" where
  "ListTransactions ext db p =
     (case applySort ext (ListTransactionsParams.Query p) (Sort p) of
        None \<Rightarrow> None
      | Some order \<Rightarrow> Some (listTransactionsSorted ext db p order))"

definition ListAssets ::
  "storage \<Rightarrow> ListAssetsParams \<Rightarrow> ListAssetsParams \<times> query list \<times> (error + AssetList)" where
  "ListAssets db p =
     (case loadAssets db p of
        Inl e \<Rightarrow> (p, [AssetsQuery p], Inl e)
      | Inr assets \<Rightarrow>
          (case countRows p (length assets) CountAssetsQuery (countAssets db) of
             (p', log, Inl e) \<Rightarrow> (p', AssetsQuery p # log, Inl e)
           | (p', log, Inr count) \<Rightarrow>
               (p', AssetsQuery p # log,
                Inr \<lparr>ListMetadata.Count = count, AssetList.Assets = assets\<rparr>)))"

definition ListAddresses ::
  "storage \<Rightarrow> ListAddressesParams \<Rightarrow>
   ListAddressesParams \<times> query list \<times> (error + AddressList)" where
  "ListAddresses db p =
     (case loadAddresses db p of
        Inl e \<Rightarrow> (p, [AddressesQuery p], Inl e)
      | Inr addresses \<Rightarrow>
          (case countRows p (length addresses) CountAddressesQuery (countAddresses db) of
             (p', log, Inl e) \<Rightarrow> (p', AddressesQuery p # log, Inl e)
           | (p', log, Inr count) \<Rightarrow>
               (case dressAddresses db addresses of
                  (log', Inl e) \<Rightarrow> (p', AddressesQuery p # log @ log', Inl e)
                | (log', Inr addresses') \<Rightarrow>
                    (p', AddressesQuery p # log @ log',
                     Inr \<lparr>ListMetadata.Count = count, AddressList.Addresses = addresses'\<rparr>))))"

text \<open>
  \<^verbatim>\<open>ListOutputs\<close> returns early on an empty page, before the counting block. Otherwise it
  loads the address rows of the page and appends each address to the last output of the
  page that has the row's output identifier (\<^verbatim>\<open>outputMap\<close>).
\<close>

definition lastOutputIndex :: "string \<Rightarrow> Output list \<Rightarrow> nat option" where
  "lastOutputIndex oid outputs =
     map_of (rev (zip (map Output.ID outputs) [0..<length outputs])) oid"

definition appendOutputAddress :: "Output list \<Rightarrow> OutputAddress \<Rightarrow> Output list" where
  "appendOutputAddress outputs address =
     (case lastOutputIndex (OutputAddress.OutputID address) outputs of
        None \<Rightarrow> outputs
      | Some i \<Rightarrow>
          outputs[i := (outputs ! i)
            \<lparr>Output.Addresses :=
               Output.Addresses (outputs ! i) @ [OutputAddress.Address address]\<rparr>])"

definition ListOutputs ::
  "storage \<Rightarrow> ListOutputsParams \<Rightarrow> ListOutputsParams \<times> query list \<times> (error + OutputList)" where
  "ListOutputs db p =
     (case loadOutputs db p of
        Inl e \<Rightarrow> (p, [OutputsQuery p], Inl e)
      | Inr outputs \<Rightarrow>
          if length outputs < 1
          then (p, [OutputsQuery p], Inr \<lparr>ListMetadata.Count = 0, OutputList.Outputs = outputs\<rparr>)
          else
            let outputIDs = map Output.ID outputs in
            (case loadOutputAddresses db outputIDs of
               Inl e \<Rightarrow> (p, [OutputsQuery p, OutputAddressesQuery outputIDs], Inl e)
             | Inr addresses \<Rightarrow>
                 (let outputs' = foldl appendOutputAddress outputs addresses in
                  case countRows p (length outputs') CountOutputsQuery (countOutputs db) of
                    (p', log, Inl e) \<Rightarrow>
                      (p', OutputsQuery p # OutputAddressesQuery outputIDs # log, Inl e)
                  | (p', log, Inr count) \<Rightarrow>
                      (p', OutputsQuery p # OutputAddressesQuery outputIDs # log,
                       Inr \<lparr>ListMetadata.Count = count, OutputList.Outputs = outputs'\<rparr>))))"

section \<open>The search resolver\<close>

definition collateSearchResults ::
  "externals \<Rightarrow> AssetList option \<Rightarrow> AddressList option \<Rightarrow> TransactionList option \<Rightarrow>
   error + SearchResults" where
  "collateSearchResults ext assetResults addressResults transactionResults =
     (let assets = (case assetResults of None \<Rightarrow> [] | Some r \<Rightarrow> AssetList.Assets r);
          addresses = (case addressResults of None \<Rightarrow> [] | Some r \<Rightarrow> AddressList.Addresses r);
          transactions = (case transactionResults of None \<Rightarrow> [] | Some r \<Rightarrow> Transactions r);
          n = int (length assets) + int (length addresses) + int (length transactions);
          returnedResultCount = (if n > PaginationMaxLimit ext then PaginationMaxLimit ext else n)
      in Inr \<lparr>SearchResults.Count = word_of_int returnedResultCount,
              Results =
                map (\<lambda>result. \<lparr>SearchResultType = ResultTypeAsset, Data = AssetData result\<rparr>)
                  assets @
                map (\<lambda>result. \<lparr>SearchResultType = ResultTypeAddress, Data = AddressData result\<rparr>)
                  addresses @
                map (\<lambda>result.
                       \<lparr>SearchResultType = ResultTypeTransaction, Data = TransactionData result\<rparr>)
                  transactions\<rparr>)"

definition searchByShortID ::
  "externals \<Rightarrow> storage \<Rightarrow> string \<Rightarrow> query list \<times> (error + SearchResults)" where
  "searchByShortID ext db shortID =
     (case ListAddresses db
             \<lparr>Limit = 0, Offset = 0, DisableCounting = True,
              ListAddressesParams.Address = Some shortID, ListAddressesParams.Query = []\<rparr> of
        (_, log, Inl e) \<Rightarrow> (log, Inl e)
      | (_, log, Inr addrs) \<Rightarrow>
          if length (AddressList.Addresses addrs) > 0
          then (log, collateSearchResults ext None (Some addrs) None)
          else (log, Inr \<lparr>SearchResults.Count = 0, Results = []\<rparr>))"

definition searchByID ::
  "externals \<Rightarrow> storage \<Rightarrow> string \<Rightarrow> (query list \<times> (error + SearchResults)) option" where
  "searchByID ext db ident =
     (case ListAssets db
             \<lparr>Limit = 0, Offset = 0, DisableCounting = True,
              ListAssetsParams.ID = Some ident, Alias = [], ListAssetsParams.Query = []\<rparr> of
        (_, log, Inl e) \<Rightarrow> Some (log, Inl e)
      | (_, log, Inr assets) \<Rightarrow>
          if length (AssetList.Assets assets) > 0
          then Some (log, collateSearchResults ext (Some assets) None None)
          else
            (case ListTransactions ext db
                    \<lparr>Limit = 0, Offset = 0, DisableCounting = True,
                     ListTransactionsParams.ID = Some ident, ListTransactionsParams.Query = [],
                     Sort = 0\<rparr> of
               None \<Rightarrow> None
             | Some (_, log', Inl e) \<Rightarrow> Some (log @ log', Inl e)
             | Some (_, log', Inr txs) \<Rightarrow>
                 if length (Transactions txs) > 0
                 then Some (log @ log', collateSearchResults ext None None (Some txs))
                 else Some (log @ log', Inr \<lparr>SearchResults.Count = 0, Results = []\<rparr>)))"

text \<open>
  The free-text path copies the caller's \<open>ListParams\<close>, sets \<^verbatim>\<open>DisableCounting\<close> in the copy,
  and builds one parameter object per reader from the copy and the query string.
\<close>

definition searchAssetsParams :: "SearchParams \<Rightarrow> ListAssetsParams" where
  "searchAssetsParams p =
     \<lparr>Limit = Limit p, Offset = Offset p, DisableCounting = True,
      ListAssetsParams.ID = None, Alias = [], ListAssetsParams.Query = SearchParams.Query p\<rparr>"

definition searchTransactionsParams :: "SearchParams \<Rightarrow> ListTransactionsParams" where
  "searchTransactionsParams p =
     \<lparr>Limit = Limit p, Offset = Offset p, DisableCounting = True,
      ListTransactionsParams.ID = None,
      ListTransactionsParams.Query = SearchParams.Query p, Sort = 0\<rparr>"

definition searchAddressesParams :: "SearchParams \<Rightarrow> ListAddressesParams" where
  "searchAddressesParams p =
     \<lparr>Limit = Limit p, Offset = Offset p, DisableCounting = True,
      ListAddressesParams.Address = None,
      ListAddressesParams.Query = SearchParams.Query p\<rparr>"

definition Search ::
  "externals \<Rightarrow> storage \<Rightarrow> SearchParams \<Rightarrow> (query list \<times> (error + SearchResults)) option" where
  "Search ext db p =
     (if length (SearchParams.Query p) < MinSearchQueryLength
      then Some ([], Inl ErrSearchQueryTooShort)
      else
        case AddressFromString ext (SearchParams.Query p) of
          Some shortID \<Rightarrow> Some (searchByShortID ext db shortID)
        | None \<Rightarrow>
            (case IDFromString ext (SearchParams.Query p) of
               Some ident \<Rightarrow> searchByID ext db ident
             | None \<Rightarrow>
                 (case ListAssets db (searchAssetsParams p) of
                    (_, log, Inl e) \<Rightarrow> Some (log, Inl e)
                  | (_, log, Inr assets) \<Rightarrow>
                      if int (length (AssetList.Assets assets)) \<ge> Limit p
                      then Some (log, collateSearchResults ext (Some assets) None None)
                      else
                        (case ListTransactions ext db (searchTransactionsParams p) of
                           None \<Rightarrow> None
                         | Some (_, log', Inl e) \<Rightarrow> Some (log @ log', Inl e)
                         | Some (_, log', Inr transactions) \<Rightarrow>
                             if int (length (Transactions transactions)) \<ge> Limit p
                             then Some (log @ log',
                                        collateSearchResults ext (Some assets) None
                                          (Some transactions))
                             else
                               (case ListAddresses db (searchAddressesParams p) of
                                  (_, log'', Inl e) \<Rightarrow> Some (log @ log' @ log'', Inl e)
                                | (_, log'', Inr addresses) \<Rightarrow>
                                    Some (log @ log' @ log'',
                                          collateSearchResults ext (Some assets)
                                            (Some addresses) (Some transactions)))))))"

section \<open>Sample storage and inputs\<close>

text \<open>
  Concrete inputs on which the theorems below are exercised: a storage that answers every
  query with no rows (and the Unix epoch as the first transaction time), a storage row of
  one bucket, an aggregate request over a span (times in nanoseconds), values for the
  external constants and parsers (no string parses as an identifier; ascending time is the
  default order), and a few rows for the list readers and the search.
\<close>

definition quietStorage :: storage where
  "quietStorage =
     \<lparr>loadFirstTransactionTime = (\<lambda>_. Inr 0),
      loadAggregates = (\<lambda>_ _ _. Inr []),
      loadTransactions = (\<lambda>_ _ _. Inr []),
      countTransactions = (\<lambda>_ _. Inr 0),
      loadAssets = (\<lambda>_. Inr []),
      countAssets = (\<lambda>_. Inr 0),
      loadAddresses = (\<lambda>_. Inr []),
      countAddresses = (\<lambda>_. Inr 0),
      loadOutputs = (\<lambda>_. Inr []),
      loadOutputAddresses = (\<lambda>_. Inr []),
      countOutputs = (\<lambda>_. Inr 0),
      loadTransactionOutputs = (\<lambda>_. Inr []),
      loadTransactionInputs = (\<lambda>_. Inr []),
      loadAddressAssets = (\<lambda>_. Inr [])\<rparr>"

definition bucketRow :: "int \<Rightarrow> string \<Rightarrow> Aggregates" where
  "bucketRow i v =
     zeroAggregates\<lparr>Idx := i, TransactionVolume := v, TransactionCount := 1, OutputCount := 1\<rparr>"

definition spanParams :: "int \<Rightarrow> int \<Rightarrow> int \<Rightarrow> AggregateParams" where
  "spanParams s e d =
     \<lparr>paramStartTime = s, paramEndTime = e, paramIntervalSize = d, ChainIDs = []\<rparr>"

definition sampleExternals :: externals where
  "sampleExternals =
     \<lparr>AddressFromString = (\<lambda>_. None), IDFromString = (\<lambda>_. None),
      NeedsDistinct = (\<lambda>_. False),
      TransactionSortTimestampAsc = 1, TransactionSortTimestampDesc = 2,
      TransactionSortDefault = 1, PaginationMaxLimit = 5000\<rparr>"

definition sampleOutput :: "string \<Rightarrow> string \<Rightarrow> string \<Rightarrow> string \<Rightarrow> string \<Rightarrow> Output" where
  "sampleOutput oid tx asset amount redeemer =
     \<lparr>Output.ID = oid, TransactionID = tx, OutputIndex = 0, Output.AssetID = asset,
      OutputType = 7, Amount = amount, Locktime = 0, Threshold = 1, Output.CreatedAt = 0,
      RedeemingTransactionID = redeemer, GroupID = 0, Payload = [], Output.Addresses = []\<rparr>"

definition oneOutputStorage :: storage where
  "oneOutputStorage =
     quietStorage\<lparr>loadOutputs := (\<lambda>_. Inr [sampleOutput ''o1'' ''t1'' ''a'' ''5'' []])\<rparr>"

definition sampleAsset :: Asset where
  "sampleAsset =
     \<lparr>Asset.ID = ''a1'', Asset.ChainID = ''X'', Name = ''gold'', Symbol = ''GLD'', Alias = [],
      Denomination = 9, CurrentSupply = ''100'', Asset.CreatedAt = 0\<rparr>"

definition sampleTransaction :: "string \<Rightarrow> Transaction" where
  "sampleTransaction txid =
     \<lparr>Transaction.ID = txid, Transaction.ChainID = ''X'', Type = ''base'', Memo = ''gold'',
      Transaction.CreatedAt = 0, Inputs = [], Transaction.Outputs = [], InputTotals = [],
      OutputTotals = []\<rparr>"

definition searchStorage :: storage where
  "searchStorage =
     quietStorage
       \<lparr>loadTransactions := (\<lambda>_ _ _. Inr [sampleTransaction ''t1'']),
        loadAssets := (\<lambda>_. Inr [sampleAsset])\<rparr>"

definition searchFor :: "int \<Rightarrow> string \<Rightarrow> SearchParams" where
  "searchFor limit query =
     \<lparr>Limit = limit, Offset = 0, DisableCounting = False, SearchParams.Query = query\<rparr>"

text \<open>
  One output of asset A and amount 5, owned by T1, redeemed by T2 and entitled to two
  addresses, of which only the first signed: two rows, which the storage returns to the
  outputs query of the owner and to the inputs query of the redeemer.
\<close>

definition sampleRow ::
  "string \<Rightarrow> string \<Rightarrow> string \<Rightarrow> string \<Rightarrow> string \<Rightarrow> string \<Rightarrow> string \<Rightarrow> compositeRecord" where
  "sampleRow oid tx asset amount redeemer addr sig =
     \<lparr>compositeRecord.Output = sampleOutput oid tx asset amount redeemer,
      OutputAddress =
        \<lparr>OutputID = oid, OutputAddress.Address = addr, OutputAddress.Signature = sig,
         OutputAddress.PublicKey = ''pk-'' @ addr, OutputAddress.CreatedAt = 0\<rparr>\<rparr>"

definition dressSampleRows :: "compositeRecord list" where
  "dressSampleRows =
     [sampleRow ''O'' ''T1'' ''A'' ''5'' ''T2'' ''a1'' ''sig'',
      sampleRow ''O'' ''T1'' ''A'' ''5'' ''T2'' ''a2'' []]"

definition dressStorage :: storage where
  "dressStorage =
     quietStorage
       \<lparr>loadTransactionOutputs :=
          (\<lambda>ids. Inr (filter (\<lambda>r. TransactionID (compositeRecord.Output r) \<in> set ids)
                         dressSampleRows)),
        loadTransactionInputs :=
          (\<lambda>ids. Inr (filter (\<lambda>r. RedeemingTransactionID (compositeRecord.Output r) \<in> set ids)
                         dressSampleRows))\<rparr>"

section \<open>Notions used in the statements and proofs\<close>

text \<open>
  The bucket count computed for a span and a width, both in nanoseconds; the volume a
  bucket contributes (a bucket whose volume string does not parse, as the
  empty string of a padded bucket, contributes zero), one step of the assembly loop, a
  storage row stamped with the times of its bucket, and the bucket expected at a
  position.
\<close>

definition ceilOfQuotient :: "int \<Rightarrow> int \<Rightarrow> int" where
  "ceilOfQuotient d w = \<lceil>float64 (Seconds d / Seconds w)\<rceil>"

definition volumeOf :: "Aggregates \<Rightarrow> int" where
  "volumeOf a = (case bigIntSetString (TransactionVolume a) of None \<Rightarrow> 0 | Some v \<Rightarrow> v)"

definition addInterval ::
  "AggregateParams \<Rightarrow> int \<Rightarrow> AggregatesHistogram \<Rightarrow> Aggregates \<Rightarrow> AggregatesHistogram" where
  "addInterval params w aggs r =
     aggs
       \<lparr>Aggregates := (Aggregates aggs)
          \<lparr>TransactionCount := TransactionCount (Aggregates aggs) + TransactionCount r,
           OutputCount := OutputCount (Aggregates aggs) + OutputCount r,
           AddressCount := AddressCount (Aggregates aggs) + AddressCount r,
           AssetCount := AssetCount (Aggregates aggs) + AssetCount r\<rparr>,
        Intervals := padTo params w (Intervals aggs) (Idx r) @
          [r\<lparr>StartTime := fst (timesForInterval params w (Idx r)),
             EndTime := snd (timesForInterval params w (Idx r))\<rparr>]\<rparr>"

definition stamp :: "AggregateParams \<Rightarrow> int \<Rightarrow> Aggregates \<Rightarrow> Aggregates" where
  "stamp params w r =
     r\<lparr>StartTime := timeUnix (Unix (paramStartTime params) + Idx r * w),
       EndTime := timeUnix (Unix (paramStartTime params) + (Idx r + 1) * w - 1)\<rparr>"

definition bucketFor :: "AggregateParams \<Rightarrow> int \<Rightarrow> Aggregates list \<Rightarrow> nat \<Rightarrow> Aggregates" where
  "bucketFor params w rows i =
     (case find (\<lambda>r. Idx r = int i) rows of
        None \<Rightarrow> emptyInterval params w (int i)
      | Some r \<Rightarrow> stamp params w r)"

definition parsedOrEmpty :: "Aggregates \<Rightarrow> bool" where
  "parsedOrEmpty a \<longleftrightarrow> bigIntSetString (TransactionVolume a) \<noteq> None \<or> TransactionVolume a = []"

text \<open>
  The order the transaction reader applies, written without the recursion of
  \<open>applySort\<close>; which storage queries count rows; which entity a list query reads, and
  whether the parameter object it was built from has counting disabled.
\<close>

definition chainThenTime :: "bool \<Rightarrow> orderClause list" where
  "chainThenTime descending =
     [OrderAsc ''avm_transactions.chain_id'',
      (if descending then OrderDesc ''avm_transactions.created_at''
       else OrderAsc ''avm_transactions.created_at'')]"

definition recognisedSort :: "externals \<Rightarrow> TransactionSort \<Rightarrow> bool" where
  "recognisedSort ext s \<longleftrightarrow>
     s = TransactionSortTimestampAsc ext \<or> s = TransactionSortTimestampDesc ext"

definition effectiveSort :: "externals \<Rightarrow> TransactionSort \<Rightarrow> TransactionSort" where
  "effectiveSort ext s = (if recognisedSort ext s then s else TransactionSortDefault ext)"

definition readerOrder :: "externals \<Rightarrow> string \<Rightarrow> TransactionSort \<Rightarrow> orderClause list" where
  "readerOrder ext query s =
     (if query \<noteq> [] then []
      else chainThenTime (effectiveSort ext s \<noteq> TransactionSortTimestampAsc ext))"

definition isCountQuery :: "query \<Rightarrow> bool" where
  "isCountQuery q =
     (case q of
        CountTransactionsQuery _ _ \<Rightarrow> True
      | CountAssetsQuery _ \<Rightarrow> True
      | CountAddressesQuery _ \<Rightarrow> True
      | CountOutputsQuery _ \<Rightarrow> True
      | _ \<Rightarrow> False)"

datatype entity = AssetEntity | TransactionEntity | AddressEntity

definition queriedEntity :: "query \<Rightarrow> entity option" where
  "queriedEntity q =
     (case q of
        AssetsQuery _ \<Rightarrow> Some AssetEntity
      | TransactionsQuery _ _ _ \<Rightarrow> Some TransactionEntity
      | AddressesQuery _ \<Rightarrow> Some AddressEntity
      | _ \<Rightarrow> None)"

definition queriedEntities :: "query list \<Rightarrow> entity list" where
  "queriedEntities log = List.map_filter queriedEntity log"

definition countingDisabled :: "query \<Rightarrow> bool" where
  "countingDisabled q =
     (case q of
        AssetsQuery p \<Rightarrow> DisableCounting p
      | TransactionsQuery p _ _ \<Rightarrow> DisableCounting p
      | AddressesQuery p \<Rightarrow> DisableCounting p
      | _ \<Rightarrow> True)"

definition quiet :: "query \<Rightarrow> bool" where
  "quiet q \<longleftrightarrow> \<not> isCountQuery q \<and> countingDisabled q"

text \<open>
  For the dressing engine: the parsed amount of a row (zero when it does not parse), the
  merged rows of an asset that a transaction owns or redeems (\<open>key\<close> selects which), the
  total the engine is expected to print for them, the credential a signed row yields, the
  credentials expected on the input of output \<open>oid\<close> in transaction \<open>tx\<close>, and the addresses
  the rows of an output carry.
\<close>

definition amountOf :: "compositeRecord \<Rightarrow> int" where
  "amountOf r =
     (case bigIntSetString (Amount (compositeRecord.Output r)) of None \<Rightarrow> 0 | Some v \<Rightarrow> v)"

definition rowsFor ::
  "(Output \<Rightarrow> string) \<Rightarrow> string \<Rightarrow> string \<Rightarrow> compositeRecord list \<Rightarrow> compositeRecord list" where
  "rowsFor key tx asset rows =
     filter (\<lambda>r. key (compositeRecord.Output r) = tx \<and>
                 Output.AssetID (compositeRecord.Output r) = asset) rows"

definition totalFor ::
  "(Output \<Rightarrow> string) \<Rightarrow> string \<Rightarrow> string \<Rightarrow> compositeRecord list \<Rightarrow> string option" where
  "totalFor key tx asset rows =
     (if rowsFor key tx asset rows = [] then None
      else Some (bigIntString (sum_list (map amountOf (rowsFor key tx asset rows)))))"

definition credentialOf :: "compositeRecord \<Rightarrow> InputCredentials" where
  "credentialOf r =
     \<lparr>InputCredentials.Address = OutputAddress.Address (compositeRecord.OutputAddress r),
      PublicKey = OutputAddress.PublicKey (compositeRecord.OutputAddress r),
      Signature = OutputAddress.Signature (compositeRecord.OutputAddress r)\<rparr>"

definition credsFor :: "string \<Rightarrow> string \<Rightarrow> compositeRecord list \<Rightarrow> InputCredentials list" where
  "credsFor tx oid rows =
     map credentialOf
       (filter (\<lambda>r. OutputAddress.Signature (compositeRecord.OutputAddress r) \<noteq> [] \<and>
                    RedeemingTransactionID (compositeRecord.Output r) = tx \<and>
                    OutputAddress.OutputID (compositeRecord.OutputAddress r) = oid) rows)"

definition addressesOf :: "string \<Rightarrow> compositeRecord list \<Rightarrow> string set" where
  "addressesOf oid rows =
     (\<lambda>r. OutputAddress.Address (compositeRecord.OutputAddress r)) `
       {r \<in> set rows. Output.ID (compositeRecord.Output r) = oid}"

text \<open>What a call attaches to a transaction, after what the transaction already held.\<close>

definition attachedInputs :: "Transaction \<Rightarrow> Transaction \<Rightarrow> Input list" where
  "attachedInputs old new = drop (length (Inputs old)) (Inputs new)"

definition attachedOutputs :: "Transaction \<Rightarrow> Transaction \<Rightarrow> Output list" where
  "attachedOutputs old new = drop (length (Transaction.Outputs old)) (Transaction.Outputs new)"

text \<open>
  What the first pass has established after the rows \<open>pre\<close>: the running totals, the
  pointers held by the inputs and outputs maps, the keys of those maps, and the address
  sets.
\<close>

definition totalsInv ::
  "(Output \<Rightarrow> string) \<Rightarrow> (string \<Rightarrow> (string \<times> int) list) \<Rightarrow> compositeRecord list \<Rightarrow> bool" where
  "totalsInv key TM pre \<longleftrightarrow>
     (\<forall>tx. distinct (map fst (TM tx)) \<and>
           (\<forall>a. map_of (TM tx) a =
                  (if rowsFor key tx a pre = [] then None
                   else Some (sum_list (map amountOf (rowsFor key tx a pre))))))"

definition inputsInv :: "(string \<Rightarrow> (string \<times> InputRef) list) \<Rightarrow> compositeRecord list \<Rightarrow> bool" where
  "inputsInv IM pre \<longleftrightarrow>
     (\<forall>tx. distinct (map fst (IM tx)) \<and>
           (\<forall>k ref. (k, ref) \<in> set (IM tx) \<longrightarrow>
              refOutput ref < length pre \<and>
              Output.ID (compositeRecord.Output (pre ! refOutput ref)) = k \<and>
              RedeemingTransactionID (compositeRecord.Output (pre ! refOutput ref)) = tx \<and>
              refCreds ref = []))"

definition outputsInv :: "(string \<Rightarrow> (string \<times> nat) list) \<Rightarrow> compositeRecord list \<Rightarrow> bool" where
  "outputsInv OM pre \<longleftrightarrow>
     (\<forall>tx k j. (k, j) \<in> set (OM tx) \<longrightarrow>
        j < length pre \<and>
        Output.ID (compositeRecord.Output (pre ! j)) = k \<and>
        TransactionID (compositeRecord.Output (pre ! j)) = tx)"

definition addrsInv :: "(string \<Rightarrow> string list) \<Rightarrow> compositeRecord list \<Rightarrow> bool" where
  "addrsInv AM pre \<longleftrightarrow> (\<forall>oid. distinct (AM oid) \<and> set (AM oid) = addressesOf oid pre)"

definition keysInv ::
  "(Output \<Rightarrow> string) \<Rightarrow> (string \<Rightarrow> (string \<times> 'v) list) \<Rightarrow> compositeRecord list \<Rightarrow> bool" where
  "keysInv key KM pre \<longleftrightarrow>
     (\<forall>tx. distinct (map fst (KM tx)) \<and>
           set (map fst (KM tx)) =
             (\<lambda>x. Output.ID (compositeRecord.Output x)) `
               {x \<in> set pre. key (compositeRecord.Output x) = tx})"

definition dressInv :: "dressMaps \<Rightarrow> compositeRecord list \<Rightarrow> bool" where
  "dressInv m pre \<longleftrightarrow>
     totalsInv TransactionID (lookupOrEmpty (outputTotalsMap m)) pre \<and>
     totalsInv RedeemingTransactionID (lookupOrEmpty (inputTotalsMap m)) pre \<and>
     inputsInv (lookupOrEmpty (inputsMap m)) pre \<and>
     outputsInv (lookupOrEmpty (outputsMap m)) pre \<and>
     addrsInv (lookupOrEmpty (outputAddrs m)) pre \<and>
     keysInv RedeemingTransactionID (lookupOrEmpty (inputsMap m)) pre \<and>
     keysInv TransactionID (lookupOrEmpty (outputsMap m)) pre"

text \<open>
  A row after the second pass has written its address list, and the state of the second
  pass after the rows below \<open>j\<close>.
\<close>

definition dressedRow :: "(string \<times> string list) list \<Rightarrow> compositeRecord \<Rightarrow> compositeRecord" where
  "dressedRow addrs r =
     r\<lparr>compositeRecord.Output := (compositeRecord.Output r)
         \<lparr>Output.Addresses := lookupOrEmpty addrs (Output.ID (compositeRecord.Output r))\<rparr>\<rparr>"

definition pass2 ::
  "(string \<times> string list) list \<Rightarrow> compositeRecord list \<Rightarrow>
   (string \<times> (string \<times> InputRef) list) list \<Rightarrow> nat \<Rightarrow>
   compositeRecord list \<times> (string \<times> (string \<times> InputRef) list) list" where
  "pass2 addrs rows ins j = foldl (collectAddresses addrs) (rows, ins) [0..<j]"

section \<open>Amount arithmetic: parsing inverts printing\<close>

lemma digitVal_digitChar: "d < 10 \<Longrightarrow> digitVal (digitChar d) = Some d"
proof -
  assume "d < 10"
  then have "d \<in> {0,1,2,3,4,5,6,7,8,9}" by auto
  then show ?thesis by (auto simp: digitVal_def digitChar_def)
qed

declare natString.simps [simp del]

lemma scanDigits_append:
  "scanDigits a (xs @ ys) = (case scanDigits a xs of None \<Rightarrow> None | Some b \<Rightarrow> scanDigits b ys)"
  by (induction xs arbitrary: a) (auto split: option.splits)

lemma scanDigits_natString: "scanDigits 0 (natString n) = Some n"
proof (induction n rule: natString.induct)
  case (1 n)
  show ?case
  proof (cases "n < 10")
    case True
    then show ?thesis by (subst natString.simps) (simp add: digitVal_digitChar)
  next
    case False
    with 1 have "scanDigits 0 (natString (n div 10)) = Some (n div 10)" by simp
    then show ?thesis using False
      by (subst natString.simps) (simp add: scanDigits_append digitVal_digitChar)
  qed
qed

lemma natString_nonempty: "natString n \<noteq> []"
  by (subst natString.simps) simp

lemma digitChar_not_sign: "d < 10 \<Longrightarrow> digitChar d \<noteq> CHR ''-'' \<and> digitChar d \<noteq> CHR ''+''"
proof -
  assume "d < 10"
  then have "d \<in> {0,1,2,3,4,5,6,7,8,9}" by auto
  then show ?thesis by (auto simp: digitChar_def)
qed

lemma hd_natString: "\<exists>d<10. hd (natString n) = digitChar d"
proof (induction n rule: natString.induct)
  case (1 n)
  show ?case
  proof (cases "n < 10")
    case True
    then show ?thesis by (subst natString.simps) auto
  next
    case False
    with 1 obtain d where "d < 10" "hd (natString (n div 10)) = digitChar d" by auto
    then show ?thesis using False natString_nonempty[of "n div 10"]
      by (subst natString.simps) auto
  qed
qed

lemma natFromString_natString: "natFromString (natString n) = Some n"
  by (simp add: natFromString_def natString_nonempty scanDigits_natString)

lemma bigIntSetString_natString: "bigIntSetString (natString n) = Some (int n)"
proof -
  obtain c cs where cs: "natString n = c # cs"
    using natString_nonempty[of n] by (cases "natString n") auto
  from hd_natString[of n] cs obtain d where "d < 10" "c = digitChar d" by auto
  then have "c \<noteq> CHR ''-''" "c \<noteq> CHR ''+''" using digitChar_not_sign by auto
  then show ?thesis
    using natFromString_natString[of n] by (simp add: bigIntSetString_def cs)
qed

lemma bigIntSetString_bigIntString: "bigIntSetString (bigIntString i) = Some i"
proof (cases "i < 0")
  case True
  then show ?thesis
    by (simp add: bigIntString_def bigIntSetString_def natFromString_natString)
next
  case False
  then show ?thesis
    by (simp add: bigIntString_def bigIntSetString_natString)
qed

section \<open>The histogram assembly loop\<close>

declare padTo.simps [simp del]

lemma padTo_unfold:
  "padTo params w sl to = sl @ map (\<lambda>i. emptyInterval params w (int i)) [length sl..<nat to]"
proof (induction params w sl to rule: padTo.induct)
  case (1 params w sl to)
  show ?case
  proof (cases "int (length sl) < to")
    case True
    then have lt: "length sl < nat to" by simp
    have "padTo params w sl to =
          padTo params w (sl @ [emptyInterval params w (int (length sl))]) to"
      using True by (subst padTo.simps) simp
    also have "\<dots> = (sl @ [emptyInterval params w (int (length sl))]) @
          map (\<lambda>i. emptyInterval params w (int i)) [Suc (length sl)..<nat to]"
      using 1 True by simp
    also have "\<dots> = sl @ map (\<lambda>i. emptyInterval params w (int i)) [length sl..<nat to]"
      using lt by (simp add: upt_conv_Cons)
    finally show ?thesis .
  next
    case False
    then show ?thesis by (subst padTo.simps) simp
  qed
qed

lemma volumeOf_emptyInterval: "volumeOf (emptyInterval params w i) = 0"
  by (simp add: volumeOf_def emptyInterval_def zeroAggregates_def bigIntSetString_def)

lemma sum_volume_padTo:
  "sum_list (map volumeOf (padTo params w sl to)) = sum_list (map volumeOf sl)"
  by (simp add: padTo_unfold volumeOf_emptyInterval o_def)

lemma Intervals_addInterval:
  "Intervals (addInterval params w aggs r) =
     padTo params w (Intervals aggs) (Idx r) @
       [r\<lparr>StartTime := fst (timesForInterval params w (Idx r)),
          EndTime := snd (timesForInterval params w (Idx r))\<rparr>]"
  by (simp add: addInterval_def)

lemma collectIntervals_Cons:
  "collectIntervals params w (r # rows) (aggs, tv) =
     (case bigIntSetString (TransactionVolume r) of
        None \<Rightarrow> Inl ErrFailedToParseStringAsBigInt
      | Some v \<Rightarrow> collectIntervals params w rows (addInterval params w aggs r, tv + v))"
  by (simp add: Let_def addInterval_def split: option.splits)

lemma collectIntervals_ConsE:
  assumes "collectIntervals params w (r # rows) (aggs, tv) = Inr res"
  obtains v where "bigIntSetString (TransactionVolume r) = Some v"
    and "collectIntervals params w rows (addInterval params w aggs r, tv + v) = Inr res"
  using assms unfolding collectIntervals_Cons by (cases "bigIntSetString (TransactionVolume r)") auto

lemma collectIntervals_volume:
  "collectIntervals params w rows (aggs, tv) = Inr (aggs', tv') \<Longrightarrow>
   tv' - sum_list (map volumeOf (Intervals aggs')) = tv - sum_list (map volumeOf (Intervals aggs))"
proof (induction rows arbitrary: aggs tv)
  case Nil
  then show ?case by simp
next
  case (Cons r rows)
  from Cons.prems obtain v where v: "bigIntSetString (TransactionVolume r) = Some v"
    and rec: "collectIntervals params w rows (addInterval params w aggs r, tv + v) = Inr (aggs', tv')"
    by (rule collectIntervals_ConsE)
  have "sum_list (map volumeOf (Intervals (addInterval params w aggs r))) =
        sum_list (map volumeOf (Intervals aggs)) + v"
    using v by (simp add: Intervals_addInterval sum_volume_padTo volumeOf_def)
  then show ?case using Cons.IH[OF rec] by simp
qed

lemma emptyInterval_fields:
  "Idx (emptyInterval params w i) = i"
  "StartTime (emptyInterval params w i) = timeUnix (Unix (paramStartTime params) + i * w)"
  "EndTime (emptyInterval params w i) = timeUnix (Unix (paramStartTime params) + (i + 1) * w - 1)"
  by (simp_all add: emptyInterval_def timesForInterval_def Let_def algebra_simps)

lemma collectIntervals_length:
  "collectIntervals params w rows (aggs, tv) = Inr (aggs', tv') \<Longrightarrow>
   sorted_wrt (<) (map Idx rows) \<Longrightarrow>
   \<forall>r\<in>set rows. int (length (Intervals aggs)) \<le> Idx r \<Longrightarrow>
   length (Intervals aggs') =
     (if rows = [] then length (Intervals aggs) else nat (Idx (last rows) + 1))"
proof (induction rows arbitrary: aggs tv)
  case Nil
  then show ?case by simp
next
  case (Cons r rows)
  define st where "st = addInterval params w aggs r"
  from Cons.prems(1) obtain v where v: "bigIntSetString (TransactionVolume r) = Some v"
    and rec: "collectIntervals params w rows (st, tv + v) = Inr (aggs', tv')"
    unfolding st_def by (rule collectIntervals_ConsE)
  have le: "int (length (Intervals aggs)) \<le> Idx r" using Cons.prems(3) by simp
  then have len: "length (Intervals st) = nat (Idx r + 1)"
    by (simp add: st_def Intervals_addInterval padTo_unfold nat_add_distrib)
  have "\<forall>r'\<in>set rows. int (length (Intervals st)) \<le> Idx r'"
    using Cons.prems(2) le len by auto
  moreover have "sorted_wrt (<) (map Idx rows)" using Cons.prems(2) by simp
  ultimately have "length (Intervals aggs') =
     (if rows = [] then length (Intervals st) else nat (Idx (last rows) + 1))"
    using Cons.IH[OF rec] by blast
  then show ?case using len by simp
qed

lemma stamp_eq:
  "r\<lparr>StartTime := fst (timesForInterval params w (Idx r)),
     EndTime := snd (timesForInterval params w (Idx r))\<rparr> = stamp params w r"
  by (simp add: stamp_def timesForInterval_def Let_def algebra_simps)

lemma find_none_above:
  "\<forall>r\<in>set rows. int i < Idx r \<Longrightarrow> find (\<lambda>r. Idx r = int i) rows = None"
  by (auto simp: find_None_iff)

lemma collectIntervals_nth:
  "collectIntervals params w rows (aggs, tv) = Inr (aggs', tv') \<Longrightarrow>
   sorted_wrt (<) (map Idx rows) \<Longrightarrow>
   \<forall>r\<in>set rows. int (length (Intervals aggs)) \<le> Idx r \<Longrightarrow>
   i < length (Intervals aggs') \<Longrightarrow>
   Intervals aggs' ! i =
     (if i < length (Intervals aggs) then Intervals aggs ! i else bucketFor params w rows i)"
proof (induction rows arbitrary: aggs tv)
  case Nil
  then show ?case by simp
next
  case (Cons r rows)
  define st where "st = addInterval params w aggs r"
  from Cons.prems(1) obtain v where v: "bigIntSetString (TransactionVolume r) = Some v"
    and rec: "collectIntervals params w rows (st, tv + v) = Inr (aggs', tv')"
    unfolding st_def by (rule collectIntervals_ConsE)
  have le: "int (length (Intervals aggs)) \<le> Idx r" using Cons.prems(3) by simp
  have ivs: "Intervals st = Intervals aggs @
       map (\<lambda>i. emptyInterval params w (int i)) [length (Intervals aggs)..<nat (Idx r)] @
       [stamp params w r]"
    by (simp add: st_def Intervals_addInterval padTo_unfold stamp_eq)
  have len: "length (Intervals st) = nat (Idx r + 1)"
    using le by (simp add: ivs nat_add_distrib)
  have above: "\<forall>r'\<in>set rows. Idx r < Idx r'" using Cons.prems(2) by simp
  have ge: "\<forall>r'\<in>set rows. int (length (Intervals st)) \<le> Idx r'"
    using above le len by auto
  have srt: "sorted_wrt (<) (map Idx rows)" using Cons.prems(2) by simp
  have IH: "Intervals aggs' ! i =
     (if i < length (Intervals st) then Intervals st ! i else bucketFor params w rows i)"
    using Cons.IH[OF rec srt ge Cons.prems(4)] .
  consider (old) "i < length (Intervals aggs)"
    | (pad) "length (Intervals aggs) \<le> i" "int i < Idx r"
    | (row) "int i = Idx r"
    | (later) "Idx r < int i"
    by linarith
  then show ?case
  proof cases
    case old
    then have "i < length (Intervals st)" using le len by linarith
    then show ?thesis using IH old by (simp add: ivs nth_append)
  next
    case pad
    then have lt: "i < length (Intervals st)" using len by linarith
    have "find (\<lambda>r. Idx r = int i) (r # rows) = None"
      using pad above by (auto simp: find_None_iff)
    moreover have "Intervals st ! i = emptyInterval params w (int i)"
      using pad by (simp add: ivs nth_append)
    ultimately show ?thesis using IH lt pad by (simp add: bucketFor_def del: find.simps)
  next
    case row
    then have lt: "i < length (Intervals st)" using len by linarith
    have i: "i = nat (Idx r)" using row by simp
    have "length (Intervals aggs @
       map (\<lambda>i. emptyInterval params w (int i)) [length (Intervals aggs)..<nat (Idx r)]) = i"
      using le i by simp
    then have "Intervals st ! i = stamp params w r"
      unfolding ivs by (metis append.assoc nth_append_length)
    moreover have "\<not> i < length (Intervals aggs)" using le row by linarith
    ultimately show ?thesis using IH lt row by (simp add: bucketFor_def)
  next
    case later
    then have nlt: "\<not> i < length (Intervals st)" "\<not> i < length (Intervals aggs)"
      using len le by linarith+
    have "Idx r \<noteq> int i" using later by simp
    then have "bucketFor params w (r # rows) i = bucketFor params w rows i"
      by (simp add: bucketFor_def)
    then show ?thesis using IH nlt by simp
  qed
qed

lemma bucketFor_fields:
  "Idx (bucketFor params w rows i) = int i"
  "StartTime (bucketFor params w rows i) = timeUnix (Unix (paramStartTime params) + int i * w)"
  "EndTime (bucketFor params w rows i) =
     timeUnix (Unix (paramStartTime params) + (int i + 1) * w - 1)"
  by (auto simp: bucketFor_def stamp_def emptyInterval_fields find_Some_iff
      split: option.splits)

lemma intervalSecondsOf_resolve:
  "resolveStartTime db params0 = (log0, Inr params) \<Longrightarrow>
   intervalSecondsOf params = intervalSecondsOf params0"
  by (auto simp: resolveStartTime_def getFirstTransactionTime_def intervalSecondsOf_def
      split: if_splits sum.splits)

lemma Aggregate_resolved:
  "resolveStartTime db params0 = (log0, Inr params) \<Longrightarrow>
   Aggregate db params0 = (log0 @ fst (aggregateFrom db params), snd (aggregateFrom db params))"
  by (simp add: Aggregate_def split_beta)

lemma requestedIntervalCountOf_pos:
  "intervalSecondsOf params \<noteq> 0 \<Longrightarrow> 1 \<le> requestedIntervalCountOf params"
  by (simp add: requestedIntervalCountOf_def)

lemma buildHistogram_Inr:
  assumes "buildHistogram params w n rows = Inr h"
  obtains aggs' tv where
    "collectIntervals params w rows
       (\<lparr>Aggregates = zeroAggregates
            \<lparr>StartTime := paramStartTime params, EndTime := paramEndTime params\<rparr>,
         IntervalSize = paramIntervalSize params, Intervals = []\<rparr>, 0) = Inr (aggs', tv)"
    "Intervals h = padTo params w (Intervals aggs') n"
    "TransactionVolume (Aggregates h) = bigIntString tv"
  using assms by (auto simp: buildHistogram_def Let_def split: sum.splits)

lemma aggregateFrom_multi_Inr:
  assumes "intervalSecondsOf params \<noteq> 0"
    and "snd (aggregateFrom db params) = Inr h"
  obtains rows where
    "loadAggregates db params (requestedIntervalCountOf params) (intervalSecondsOf params) = Inr rows"
    "buildHistogram params (intervalSecondsOf params) (requestedIntervalCountOf params) rows = Inr h"
proof -
  have n: "requestedIntervalCountOf params \<noteq> 0"
    using requestedIntervalCountOf_pos[OF assms(1)] by simp
  show ?thesis
    using assms n that
    by (auto simp: aggregateFrom_def Let_def split: if_splits sum.splits)
qed

lemma ascending_le_last:
  "sorted_wrt (<) (map Idx rows) \<Longrightarrow> r \<in> set rows \<Longrightarrow> Idx r \<le> Idx (last rows)"
proof (induction rows)
  case Nil
  then show ?case by simp
next
  case (Cons a rows)
  show ?case
  proof (cases "rows = []")
    case True
    then show ?thesis using Cons.prems by simp
  next
    case False
    then have "last rows \<in> set rows" by simp
    then have "Idx a < Idx (last rows)" using Cons.prems(1) by simp
    moreover have "r \<in> set rows \<Longrightarrow> Idx r \<le> Idx (last rows)"
      using Cons.IH Cons.prems(1) by simp
    ultimately show ?thesis using Cons.prems(2) False by auto
  qed
qed

lemma ascending_find:
  "sorted_wrt (<) (map Idx rows) \<Longrightarrow> r \<in> set rows \<Longrightarrow>
   find (\<lambda>r'. Idx r' = Idx r) rows = Some r"
  by (induction rows) auto

lemma Aggregate_InrE:
  assumes "Aggregate db params0 = (log, Inr h)"
  obtains log0 params where "resolveStartTime db params0 = (log0, Inr params)"
    and "snd (aggregateFrom db params) = Inr h"
proof -
  obtain log0 r0 where r: "resolveStartTime db params0 = (log0, r0)"
    by (cases "resolveStartTime db params0")
  show ?thesis
  proof (cases r0)
    case (Inl e)
    then show ?thesis using assms r by (simp add: Aggregate_def)
  next
    case (Inr params)
    then have "snd (aggregateFrom db params) = Inr h"
      using assms r by (simp add: Aggregate_def split_beta)
    then show ?thesis using that r Inr by simp
  qed
qed

lemma TransactionVolume_emptyInterval: "TransactionVolume (emptyInterval params w i) = []"
  by (simp add: emptyInterval_def zeroAggregates_def)

lemma set_padTo:
  "a \<in> set (padTo params w sl to) \<Longrightarrow> a \<in> set sl \<or> TransactionVolume a = []"
  by (auto simp: padTo_unfold TransactionVolume_emptyInterval)

lemma collectIntervals_parsed:
  "collectIntervals params w rows (aggs, tv) = Inr (aggs', tv') \<Longrightarrow>
   list_all parsedOrEmpty (Intervals aggs) \<Longrightarrow> list_all parsedOrEmpty (Intervals aggs')"
proof (induction rows arbitrary: aggs tv)
  case Nil
  then show ?case by simp
next
  case (Cons r rows)
  from Cons.prems(1) obtain v where v: "bigIntSetString (TransactionVolume r) = Some v"
    and rec: "collectIntervals params w rows (addInterval params w aggs r, tv + v) = Inr (aggs', tv')"
    by (rule collectIntervals_ConsE)
  have "parsedOrEmpty a" if "a \<in> set (padTo params w (Intervals aggs) (Idx r))" for a
    using set_padTo[OF that] Cons.prems(2) by (auto simp: parsedOrEmpty_def list_all_iff)
  moreover have "parsedOrEmpty (r\<lparr>StartTime := s, EndTime := e\<rparr>)" for s e
    using v by (simp add: parsedOrEmpty_def)
  ultimately have "list_all parsedOrEmpty (Intervals (addInterval params w aggs r))"
    by (simp add: Intervals_addInterval list_all_iff)
  then show ?case using Cons.IH[OF rec] by blast
qed

text \<open>
  The float64 model at some known values: 0.1 and 1.4 are the nearest doubles;
  4.2 s over 1.4 s has the quotient 3.0000000000000004 and so the ceiling 4; 200 days and
  a nanosecond are 17280000 s after rounding, 200 days long; 16777216.999999999 s round
  up to 16777217 s.
\<close>

lemma float64_examples:
  "float64 (1 / 10) = 3602879701896397 / 36028797018963968"
  "Seconds 1400000000 = 3152519739159347 / 2251799813685248"
  "Seconds 1500000000 = 3 / 2"
  "Seconds (- 1500000000) = - 3 / 2"
  "ceilOfQuotient 4200000000 1400000000 = 4"
  "ceilOfQuotient 17280000000000001 86400000000000 = 200"
  "int64OfFloat (Seconds 16777216999999999) = 16777217"
  "int64OfFloat (Seconds 999999999) = 0"
  "int64OfFloat (Seconds (- 1500000000)) = - 1"
  by code_simp+

text \<open>The float64 computations of the sample requests.\<close>

lemma intervalSeconds_samples:
  "int64OfFloat (Seconds 0) = 0"
  "int64OfFloat (Seconds 1000000000) = 1"
  "int64OfFloat (Seconds 1500000000) = 1"
  by code_simp+

lemma ceilIntervalCount_eval:
  "ceilIntervalCount params =
     ceilOfQuotient (Sub (paramEndTime params) (paramStartTime params)) (paramIntervalSize params)"
  by (simp add: ceilIntervalCount_def ceilOfQuotient_def)

lemma intervalCount_samples:
  "ceilOfQuotient 3000000000 1000000000 = 3"
  "ceilOfQuotient 3000000000 1500000000 = 2"
  "ceilOfQuotient 30000000000000 1000000000 = 30000"
  by code_simp+

lemmas aggregate_eval =
  intervalSeconds_samples intervalCount_samples
  Aggregate_def resolveStartTime_def getFirstTransactionTime_def aggregateFrom_def
  buildHistogram_def requestedIntervalCountOf_def intervalSecondsOf_def ceilIntervalCount_eval
  Sub_def IsZero_def zeroTime_def Unix_def timeUnix_def MaxAggregateIntervalCount_def
  timesForInterval_def emptyInterval_def zeroAggregates_def zeroHistogram_def
  bigIntSetString_def natFromString_def digitVal_def bigIntString_def digitChar_def
  quietStorage_def bucketRow_def spanParams_def padTo_unfold Let_def upt_conv_Cons

section \<open>Properties of the aggregation histogram builder\<close>

text \<open>
  The interval sequence when the storage rows are as the grouped query is meant to return
  them. Take a call with a bucket width of at least one second
  (\<open>intervalSecondsOf params \<noteq> 0\<close>; \<open>params\<close> is the parameter object once the start
  time is known) that succeeds, and let \<open>n\<close> be the requested bucket count. If the rows the
  storage returned carry bucket indices that ascend strictly and lie in \<open>[0, n)\<close>, the
  returned sequence has exactly \<open>n\<close> buckets, position \<open>i\<close> holds bucket \<open>i\<close>, bucket \<open>i\<close> starts
  at second \<open>Unix start + i * width\<close> and ends at second \<open>Unix start + (i + 1) * width - 1\<close>
  (the width in whole seconds), a bucket with a storage row is that row with these bounds,
  and a bucket without one is the zero aggregate with its index and these bounds.
\<close>

theorem Aggregate_intervals:
  assumes start: "resolveStartTime db params0 = (log0, Inr params)"
    and width: "intervalSecondsOf params \<noteq> 0"
    and rows: "loadAggregates db params (requestedIntervalCountOf params)
                 (intervalSecondsOf params) = Inr rows"
    and ascending: "sorted_wrt (<) (map Idx rows)"
    and inrange: "\<forall>r\<in>set rows. 0 \<le> Idx r \<and> Idx r < requestedIntervalCountOf params"
    and ok: "Aggregate db params0 = (log, Inr h)"
  shows "length (Intervals h) = nat (requestedIntervalCountOf params) \<and>
    (\<forall>i < nat (requestedIntervalCountOf params).
       Idx (Intervals h ! i) = int i \<and>
       StartTime (Intervals h ! i) =
         timeUnix (Unix (paramStartTime params) + int i * intervalSecondsOf params) \<and>
       EndTime (Intervals h ! i) =
         timeUnix (Unix (paramStartTime params) + (int i + 1) * intervalSecondsOf params - 1) \<and>
       (\<forall>r\<in>set rows. Idx r = int i \<longrightarrow>
          Intervals h ! i =
            r\<lparr>StartTime :=
                 timeUnix (Unix (paramStartTime params) + int i * intervalSecondsOf params),
              EndTime :=
                 timeUnix (Unix (paramStartTime params) + (int i + 1) * intervalSecondsOf params - 1)\<rparr>) \<and>
       ((\<forall>r\<in>set rows. Idx r \<noteq> int i) \<longrightarrow>
          Intervals h ! i =
            zeroAggregates
              \<lparr>Idx := int i,
               StartTime :=
                 timeUnix (Unix (paramStartTime params) + int i * intervalSecondsOf params),
               EndTime :=
                 timeUnix (Unix (paramStartTime params) + (int i + 1) * intervalSecondsOf params - 1)\<rparr>))"
proof -
  define w where "w = intervalSecondsOf params"
  define n where "n = requestedIntervalCountOf params"
  have res: "snd (aggregateFrom db params) = Inr h"
    using ok Aggregate_resolved[OF start] by simp
  from width res obtain rows' where
    "loadAggregates db params n w = Inr rows'" and bh: "buildHistogram params w n rows' = Inr h"
    unfolding w_def n_def by (rule aggregateFrom_multi_Inr)
  with rows have bh: "buildHistogram params w n rows = Inr h" by (simp add: w_def n_def)
  from bh obtain aggs' tv where
    coll: "collectIntervals params w rows
       (\<lparr>Aggregates = zeroAggregates
            \<lparr>StartTime := paramStartTime params, EndTime := paramEndTime params\<rparr>,
         IntervalSize = paramIntervalSize params, Intervals = []\<rparr>, 0) = Inr (aggs', tv)"
    and ivs: "Intervals h = padTo params w (Intervals aggs') n"
    by (rule buildHistogram_Inr)
  have ge0: "\<forall>r\<in>set rows. int (length (Intervals \<lparr>Aggregates = zeroAggregates
            \<lparr>StartTime := paramStartTime params, EndTime := paramEndTime params\<rparr>,
         IntervalSize = paramIntervalSize params, Intervals = []\<rparr>)) \<le> Idx r"
    using inrange by simp
  have len': "length (Intervals aggs') = (if rows = [] then 0 else nat (Idx (last rows) + 1))"
    using collectIntervals_length[OF coll ascending ge0] by simp
  have npos: "1 \<le> n" unfolding n_def using width by (rule requestedIntervalCountOf_pos)
  have le: "length (Intervals aggs') \<le> nat n"
  proof (cases "rows = []")
    case True
    then show ?thesis using len' by simp
  next
    case False
    then have "last rows \<in> set rows" by simp
    then have "Idx (last rows) < n" using inrange by (simp add: n_def)
    then show ?thesis using len' False by simp
  qed
  have ivs': "Intervals h = Intervals aggs' @
      map (\<lambda>i. emptyInterval params w (int i)) [length (Intervals aggs')..<nat n]"
    by (simp add: ivs padTo_unfold)
  have len: "length (Intervals h) = nat n" using le by (simp add: ivs')
  have nth: "Intervals h ! i = bucketFor params w rows i" if i: "i < nat n" for i
  proof (cases "i < length (Intervals aggs')")
    case True
    then show ?thesis
      using collectIntervals_nth[OF coll ascending ge0 True] by (simp add: ivs' nth_append)
  next
    case False
    have "\<forall>r\<in>set rows. Idx r \<noteq> int i"
    proof
      fix r assume r: "r \<in> set rows"
      then have ne: "rows \<noteq> []" by auto
      have "Idx r \<le> Idx (last rows)"
        using ascending r by (rule ascending_le_last)
      then show "Idx r \<noteq> int i" using False len' ne by auto
    qed
    then have "find (\<lambda>r. Idx r = int i) rows = None" by (auto simp: find_None_iff)
    then have "bucketFor params w rows i = emptyInterval params w (int i)"
      by (simp add: bucketFor_def)
    moreover have "Intervals h ! i = emptyInterval params w (int i)"
      using False i by (simp add: ivs' nth_append)
    ultimately show ?thesis by simp
  qed
  have uniq: "find (\<lambda>r. Idx r = int i) rows = Some r" if "r \<in> set rows" "Idx r = int i" for r i
    using ascending_find[OF ascending that(1)] that(2) by simp
  show ?thesis
    unfolding w_def[symmetric] n_def[symmetric]
  proof (intro conjI allI impI ballI)
    show "length (Intervals h) = nat n" by (rule len)
  next
    fix i assume "i < nat n"
    then show "Idx (Intervals h ! i) = int i" by (simp add: nth bucketFor_fields)
  next
    fix i assume "i < nat n"
    then show "StartTime (Intervals h ! i) = timeUnix (Unix (paramStartTime params) + int i * w)"
      by (simp add: nth bucketFor_fields)
  next
    fix i assume "i < nat n"
    then show "EndTime (Intervals h ! i) =
       timeUnix (Unix (paramStartTime params) + (int i + 1) * w - 1)"
      by (simp add: nth bucketFor_fields)
  next
    fix i r assume "i < nat n" "r \<in> set rows" "Idx r = int i"
    then show "Intervals h ! i =
            r\<lparr>StartTime := timeUnix (Unix (paramStartTime params) + int i * w),
              EndTime := timeUnix (Unix (paramStartTime params) + (int i + 1) * w - 1)\<rparr>"
      using uniq[of r i] by (simp add: nth bucketFor_def stamp_def)
  next
    fix i assume "i < nat n" "\<forall>r\<in>set rows. Idx r \<noteq> int i"
    then have "find (\<lambda>r. Idx r = int i) rows = None" by (auto simp: find_None_iff)
    then show "Intervals h ! i = zeroAggregates
              \<lparr>Idx := int i,
               StartTime := timeUnix (Unix (paramStartTime params) + int i * w),
               EndTime := timeUnix (Unix (paramStartTime params) + (int i + 1) * w - 1)\<rparr>"
      using \<open>i < nat n\<close>
      by (simp add: nth bucketFor_def emptyInterval_def timesForInterval_def Let_def algebra_simps)
  qed
qed

theorem Aggregate_intervals_witness:
  "length (Intervals (projr (snd (Aggregate
       (quietStorage\<lparr>loadAggregates := (\<lambda>_ _ _. Inr [bucketRow 1 ''7''])\<rparr>)
       (spanParams 0 3000000000 1000000000))))) = 3 \<and>
   Idx (Intervals (projr (snd (Aggregate
       (quietStorage\<lparr>loadAggregates := (\<lambda>_ _ _. Inr [bucketRow 1 ''7''])\<rparr>)
       (spanParams 0 3000000000 1000000000)))) ! 2) = 2 \<and>
   StartTime (Intervals (projr (snd (Aggregate
       (quietStorage\<lparr>loadAggregates := (\<lambda>_ _ _. Inr [bucketRow 1 ''7''])\<rparr>)
       (spanParams 0 3000000000 1000000000)))) ! 2) = 2000000000"
proof -
  define db where "db = quietStorage\<lparr>loadAggregates := (\<lambda>_ _ _. Inr [bucketRow 1 ''7''])\<rparr>"
  define p where "p = spanParams 0 3000000000 1000000000"
  have n: "requestedIntervalCountOf p = 3" by (simp add: p_def aggregate_eval)
  have start: "resolveStartTime db p = ([], Inr p)" by (simp add: p_def aggregate_eval)
  have width: "intervalSecondsOf p \<noteq> 0" by (simp add: p_def aggregate_eval)
  have rows: "loadAggregates db p (requestedIntervalCountOf p) (intervalSecondsOf p) =
      Inr [bucketRow 1 ''7'']" by (simp add: db_def quietStorage_def)
  have asc: "sorted_wrt (<) (map Idx [bucketRow 1 ''7''])" by simp
  have inr: "\<forall>r\<in>set [bucketRow 1 ''7'']. 0 \<le> Idx r \<and> Idx r < requestedIntervalCountOf p"
    by (simp add: n bucketRow_def)
  have "\<exists>h. snd (Aggregate db p) = Inr h"
    by (simp add: db_def p_def aggregate_eval natString.simps)
  then have ok: "Aggregate db p = (fst (Aggregate db p), Inr (projr (snd (Aggregate db p))))"
    by (auto simp: prod_eq_iff)
  have two: "(2::nat) < nat 3" by simp
  show ?thesis
    using Aggregate_intervals[OF start width rows asc inr ok] two
    unfolding n db_def[symmetric] p_def[symmetric]
    by (simp add: p_def aggregate_eval)
qed

text \<open>
  Claim C2 at a width with a fraction of a second: start at the epoch, a span of 3 s and a
  width of 1.5 s. The requested count, computed from the two \<^verbatim>\<open>Seconds()\<close> values, is 2: it
  is the \<^verbatim>\<open>LIMIT\<close> of the query, the capacity of the result and the length padded to. The
  bucket index and the bucket bounds are computed from \<^verbatim>\<open>intervalSeconds\<close>, the width cut to
  1 whole second, so the span holds the indices 0, 1 and 2. When the storage answers with
  the rows of indices 0 and 2 the call returns three buckets, each one second long, where
  two were requested.
\<close>

theorem Aggregate_fractional_width:
  "requestedIntervalCountOf (spanParams 0 3000000000 1500000000) = 2 \<and>
   intervalSecondsOf (spanParams 0 3000000000 1500000000) = 1 \<and>
   fst (Aggregate
        (quietStorage\<lparr>loadAggregates := (\<lambda>_ _ _. Inr [bucketRow 0 ''1'', bucketRow 2 ''1''])\<rparr>)
        (spanParams 0 3000000000 1500000000)) =
     [AggregatesQuery (spanParams 0 3000000000 1500000000) 2 1] \<and>
   map_sum id (\<lambda>h. map (\<lambda>a. (Idx a, StartTime a, EndTime a)) (Intervals h))
     (snd (Aggregate
        (quietStorage\<lparr>loadAggregates := (\<lambda>_ _ _. Inr [bucketRow 0 ''1'', bucketRow 2 ''1''])\<rparr>)
        (spanParams 0 3000000000 1500000000))) =
     Inr [(0, 0, 0), (1, 1000000000, 1000000000), (2, 2000000000, 2000000000)]"
  by (simp add: aggregate_eval natString.simps)

text \<open>
  Claim C3. In a successful multi-bucket result the grand-total volume is the decimal
  string of the sum of the volumes of all returned buckets, and parses back to that sum;
  every returned bucket either parses or is a padded bucket with the empty volume string,
  which contributes zero.
\<close>

theorem Aggregate_total_volume:
  assumes width: "intervalSecondsOf params0 \<noteq> 0"
    and ok: "Aggregate db params0 = (log, Inr h)"
  shows "TransactionVolume (Aggregates h) = bigIntString (sum_list (map volumeOf (Intervals h))) \<and>
         bigIntSetString (TransactionVolume (Aggregates h)) = Some (sum_list (map volumeOf (Intervals h))) \<and>
         (\<forall>a\<in>set (Intervals h).
            bigIntSetString (TransactionVolume a) = None \<longrightarrow> TransactionVolume a = [])"
proof -
  from ok obtain log0 params where start: "resolveStartTime db params0 = (log0, Inr params)"
    and res: "snd (aggregateFrom db params) = Inr h"
    by (rule Aggregate_InrE)
  have w: "intervalSecondsOf params \<noteq> 0"
    using width intervalSecondsOf_resolve[OF start] by simp
  from w res obtain rows where
    bh: "buildHistogram params (intervalSecondsOf params) (requestedIntervalCountOf params) rows = Inr h"
    by (rule aggregateFrom_multi_Inr)
  from bh obtain aggs' tv where
    coll: "collectIntervals params (intervalSecondsOf params) rows
       (\<lparr>Aggregates = zeroAggregates
            \<lparr>StartTime := paramStartTime params, EndTime := paramEndTime params\<rparr>,
         IntervalSize = paramIntervalSize params, Intervals = []\<rparr>, 0) = Inr (aggs', tv)"
    and ivs: "Intervals h =
        padTo params (intervalSecondsOf params) (Intervals aggs') (requestedIntervalCountOf params)"
    and vol: "TransactionVolume (Aggregates h) = bigIntString tv"
    by (rule buildHistogram_Inr)
  have "tv = sum_list (map volumeOf (Intervals aggs'))"
    using collectIntervals_volume[OF coll] by simp
  then have tv: "tv = sum_list (map volumeOf (Intervals h))"
    by (simp add: ivs sum_volume_padTo)
  have "list_all parsedOrEmpty (Intervals aggs')"
    using collectIntervals_parsed[OF coll] by simp
  then have "parsedOrEmpty a" if "a \<in> set (Intervals h)" for a
    using set_padTo[of a params "intervalSecondsOf params" "Intervals aggs'"
        "requestedIntervalCountOf params"] that
    by (auto simp: ivs list_all_iff parsedOrEmpty_def)
  then have "\<forall>a\<in>set (Intervals h).
          bigIntSetString (TransactionVolume a) = None \<longrightarrow> TransactionVolume a = []"
    unfolding parsedOrEmpty_def by blast
  then show ?thesis using vol tv by (simp add: bigIntSetString_bigIntString)
qed

theorem Aggregate_total_volume_witness:
  "TransactionVolume (Aggregates (projr (snd (Aggregate
       (quietStorage\<lparr>loadAggregates := (\<lambda>_ _ _. Inr [bucketRow 0 ''7'', bucketRow 2 ''35''])\<rparr>)
       (spanParams 0 3000000000 1000000000))))) = ''42'' \<and>
   map volumeOf (Intervals (projr (snd (Aggregate
       (quietStorage\<lparr>loadAggregates := (\<lambda>_ _ _. Inr [bucketRow 0 ''7'', bucketRow 2 ''35''])\<rparr>)
       (spanParams 0 3000000000 1000000000))))) = [7, 0, 35]"
proof -
  define db where
    "db = quietStorage\<lparr>loadAggregates := (\<lambda>_ _ _. Inr [bucketRow 0 ''7'', bucketRow 2 ''35''])\<rparr>"
  define p where "p = spanParams 0 3000000000 1000000000"
  have width: "intervalSecondsOf p \<noteq> 0" by (simp add: p_def aggregate_eval)
  have "\<exists>h. snd (Aggregate db p) = Inr h"
    by (simp add: db_def p_def aggregate_eval natString.simps)
  then have ok: "Aggregate db p = (fst (Aggregate db p), Inr (projr (snd (Aggregate db p))))"
    by (auto simp: prod_eq_iff)
  have vols: "map volumeOf (Intervals (projr (snd (Aggregate db p)))) = [7, 0, 35]"
    by (simp add: db_def p_def aggregate_eval natString.simps volumeOf_def)
  have "bigIntString (7 + 0 + 35) = ''42''"
    by (simp add: bigIntString_def natString.simps digitChar_def)
  then show ?thesis
    using Aggregate_total_volume[OF width ok] vols
    unfolding db_def[symmetric] p_def[symmetric] by simp
qed

text \<open>
  Claim C5, as the code has it. The bucket count is \<open>ceilIntervalCount\<close>: the ceiling of the
  float64 quotient of the two \<^verbatim>\<open>Seconds()\<close> values, taken once the start time is known.
  When the width is at least one second and this count exceeds 20000, the call fails with
  \<open>ErrAggregateIntervalCountTooLarge\<close> and never issues the aggregate query. The only
  round trip is the lookup of the first transaction time, made exactly when the caller
  left the start time unset.
\<close>

theorem Aggregate_too_many_intervals:
  assumes start: "resolveStartTime db params0 = (log0, Inr params)"
    and width: "intervalSecondsOf params \<noteq> 0"
    and count: "ceilIntervalCount params > MaxAggregateIntervalCount"
  shows "Aggregate db params0 = (log0, Inl ErrAggregateIntervalCountTooLarge) \<and>
         log0 = (if IsZero (paramStartTime params0)
                 then [FirstTransactionTimeQuery (ChainIDs params0)] else [])"
proof -
  have "aggregateFrom db params = ([], Inl ErrAggregateIntervalCountTooLarge)"
    using width count by (simp add: aggregateFrom_def)
  then have "Aggregate db params0 = (log0, Inl ErrAggregateIntervalCountTooLarge)"
    using Aggregate_resolved[OF start] by simp
  moreover have "log0 = (if IsZero (paramStartTime params0)
                 then [FirstTransactionTimeQuery (ChainIDs params0)] else [])"
    using start
    by (auto simp: resolveStartTime_def getFirstTransactionTime_def split: if_splits sum.splits)
  ultimately show ?thesis by simp
qed

theorem Aggregate_too_many_intervals_witness:
  "Aggregate quietStorage (spanParams 0 30000000000000 1000000000) =
     ([], Inl ErrAggregateIntervalCountTooLarge)"
proof -
  define p where "p = spanParams 0 30000000000000 1000000000"
  have start: "resolveStartTime quietStorage p = ([], Inr p)" by (simp add: p_def aggregate_eval)
  have width: "intervalSecondsOf p \<noteq> 0" by (simp add: p_def aggregate_eval)
  have count: "ceilIntervalCount p > MaxAggregateIntervalCount" by (simp add: p_def aggregate_eval)
  show ?thesis
    using Aggregate_too_many_intervals[OF start width count] unfolding p_def by simp
qed

text \<open>
  The claim as stated fails when the start time is unset: the count cannot be computed
  before the first transaction time has been read from storage, so one round trip precedes
  the error.
\<close>

theorem Aggregate_too_many_intervals_counterexample:
  "ceilIntervalCount (spanParams (timeUnix 0) 30000000000000 1000000000) > MaxAggregateIntervalCount \<and>
   Aggregate quietStorage (spanParams zeroTime 30000000000000 1000000000) =
     ([FirstTransactionTimeQuery []], Inl ErrAggregateIntervalCountTooLarge)"
  by (simp add: aggregate_eval)

text \<open>
  The count is the float64 one, not the exact ceiling of the quotient of the two durations.
  Over a span of 20000000.000000001 s at a width of 1000 s the exact quotient is just above
  20000 and its ceiling 20001, but \<^verbatim>\<open>Seconds()\<close> of the span is 20000000 and the computed
  count 20000: the aggregate query is issued. The other way round, 20020 s at a width of
  1.001 s divide exactly to 20000, and the float64 quotient has the ceiling 20001.
\<close>

lemma Aggregate_count_is_float64:
  "- ((- Sub 20000000000000001 0) div 1000000000000) = 20001 \<and>
   ceilIntervalCount (spanParams 0 20000000000000001 1000000000000) = 20000 \<and>
   fst (Aggregate quietStorage (spanParams 0 20000000000000001 1000000000000)) =
     [AggregatesQuery (spanParams 0 20000000000000001 1000000000000) 20000 1000] \<and>
   - ((- Sub 20020000000000 0) div 1001000000) = 20000 \<and>
   ceilIntervalCount (spanParams 0 20020000000000 1001000000) = 20001 \<and>
   Aggregate quietStorage (spanParams 0 20020000000000 1001000000) =
     ([], Inl ErrAggregateIntervalCountTooLarge)"
proof -
  define p where "p = spanParams 0 20000000000000001 1000000000000"
  define q where "q = spanParams 0 20020000000000 1001000000"
  have w: "intervalSecondsOf p = 1000" "intervalSecondsOf q = 1"
    unfolding p_def q_def by code_simp+
  have c: "ceilIntervalCount p = 20000" "ceilIntervalCount q = 20001"
    unfolding p_def q_def by code_simp+
  have e: "- ((- Sub 20000000000000001 0) div 1000000000000) = (20001::int)"
    "- ((- Sub 20020000000000 0) div 1001000000) = (20000::int)"
    by (simp_all add: Sub_def)
  have sp: "resolveStartTime quietStorage p = ([], Inr p)"
    by (simp add: p_def resolveStartTime_def spanParams_def IsZero_def zeroTime_def)
  have sq: "resolveStartTime quietStorage q = ([], Inr q)"
    by (simp add: q_def resolveStartTime_def spanParams_def IsZero_def zeroTime_def)
  have "fst (aggregateFrom quietStorage p) = [AggregatesQuery p 20000 1000]"
    by (simp add: aggregateFrom_def Let_def requestedIntervalCountOf_def w c
        MaxAggregateIntervalCount_def)
  then have fp: "fst (Aggregate quietStorage p) = [AggregatesQuery p 20000 1000]"
    using Aggregate_resolved[OF sp] by simp
  have "aggregateFrom quietStorage q = ([], Inl ErrAggregateIntervalCountTooLarge)"
    by (simp add: aggregateFrom_def Let_def w c MaxAggregateIntervalCount_def)
  then have fq: "Aggregate quietStorage q = ([], Inl ErrAggregateIntervalCountTooLarge)"
    using Aggregate_resolved[OF sq] by simp
  show ?thesis
    using e c fp fq unfolding p_def q_def by simp
qed

text \<open>
  Claim C9. Take a call whose width is zero (or any width below one second, for which
  \<^verbatim>\<open>intervalSeconds\<close> is zero as well). The query is then a select of aggregates without
  grouping, which answers with one row. With an answer of at least one row the call
  succeeds; its one interval is the result's \<^verbatim>\<open>Aggregates\<close>, the first row spanning the
  requested range from start time to end time; the interval sequence is empty, so nothing
  was padded, and the only round trip after the start-time lookup is the query with the
  requested count 0.
\<close>

theorem Aggregate_single_bucket:
  assumes start: "resolveStartTime db params0 = (log0, Inr params)"
    and width: "intervalSecondsOf params = 0"
    and rows: "loadAggregates db params 0 0 = Inr (first # rest)"
  shows "Aggregate db params0 =
           (log0 @ [AggregatesQuery params 0 0],
            Inr \<lparr>Aggregates = first
                    \<lparr>StartTime := paramStartTime params, EndTime := paramEndTime params\<rparr>,
                  IntervalSize = 0, Intervals = []\<rparr>)"
proof -
  have "aggregateFrom db params =
          ([AggregatesQuery params 0 0],
            Inr \<lparr>Aggregates = first
                    \<lparr>StartTime := paramStartTime params, EndTime := paramEndTime params\<rparr>,
                  IntervalSize = 0, Intervals = []\<rparr>)"
    using width rows
    by (simp add: aggregateFrom_def requestedIntervalCountOf_def zeroHistogram_def)
  then show ?thesis using Aggregate_resolved[OF start] by simp
qed

theorem Aggregate_single_bucket_witness:
  "Aggregate (quietStorage\<lparr>loadAggregates := (\<lambda>_ _ _. Inr [bucketRow 0 ''9''])\<rparr>)
       (spanParams zeroTime 5000000000 0) =
     ([FirstTransactionTimeQuery [], AggregatesQuery (spanParams 0 5000000000 0) 0 0],
      Inr \<lparr>Aggregates = (bucketRow 0 ''9'')\<lparr>StartTime := 0, EndTime := 5000000000\<rparr>,
           IntervalSize = 0, Intervals = []\<rparr>)"
proof -
  define db where "db = quietStorage\<lparr>loadAggregates := (\<lambda>_ _ _. Inr [bucketRow 0 ''9''])\<rparr>"
  have start: "resolveStartTime db (spanParams zeroTime 5000000000 0) =
      ([FirstTransactionTimeQuery []], Inr (spanParams 0 5000000000 0))"
    by (simp add: db_def aggregate_eval)
  have width: "intervalSecondsOf (spanParams 0 5000000000 0) = 0" by (simp add: aggregate_eval)
  have rows: "loadAggregates db (spanParams 0 5000000000 0) 0 0 = Inr (bucketRow 0 ''9'' # [])"
    by (simp add: db_def quietStorage_def)
  show ?thesis
    using Aggregate_single_bucket[OF start width rows] unfolding db_def
    by (simp add: spanParams_def)
qed

text \<open>
  A width of zero has zero whole seconds. The source also guards the single-bucket path
  against an answer without rows, which the ungrouped query does not give: the call then
  returns the zero-valued histogram.
\<close>

lemma intervalSecondsOf_zero: "paramIntervalSize params = 0 \<Longrightarrow> intervalSecondsOf params = 0"
  by (simp add: intervalSecondsOf_def intervalSeconds_samples)

lemma Aggregate_single_bucket_guard:
  assumes start: "resolveStartTime db params0 = (log0, Inr params)"
    and width: "intervalSecondsOf params = 0"
    and rows: "loadAggregates db params 0 0 = Inr []"
  shows "Aggregate db params0 = (log0 @ [AggregatesQuery params 0 0], Inr zeroHistogram)"
proof -
  have "aggregateFrom db params = ([AggregatesQuery params 0 0], Inr zeroHistogram)"
    using width rows by (simp add: aggregateFrom_def requestedIntervalCountOf_def)
  then show ?thesis using Aggregate_resolved[OF start] by simp
qed

section \<open>The list readers and the search: supporting lemmas\<close>

lemma applySort_query: "query \<noteq> [] \<Longrightarrow> applySort ext query sortBy = Some []"
  by (subst applySort.simps) simp

lemma applySort_asc:
  "applySort ext [] (TransactionSortTimestampAsc ext) = Some (chainThenTime False)"
  by (subst applySort.simps) (simp add: chainThenTime_def)

lemma applySort_desc:
  "TransactionSortTimestampDesc ext \<noteq> TransactionSortTimestampAsc ext \<Longrightarrow>
   applySort ext [] (TransactionSortTimestampDesc ext) = Some (chainThenTime True)"
  by (subst applySort.simps) (simp add: chainThenTime_def)

lemma applySort_other:
  "sortBy \<noteq> TransactionSortTimestampAsc ext \<Longrightarrow> sortBy \<noteq> TransactionSortTimestampDesc ext \<Longrightarrow>
   applySort ext [] sortBy = applySort ext [] (TransactionSortDefault ext)"
  by (subst applySort.simps) simp

lemma applySort_recognised:
  assumes "recognisedSort ext s"
  shows "applySort ext [] s = Some (chainThenTime (s \<noteq> TransactionSortTimestampAsc ext))"
proof (cases "s = TransactionSortTimestampAsc ext")
  case True
  then show ?thesis by (simp add: applySort_asc)
next
  case False
  then have s: "s = TransactionSortTimestampDesc ext" using assms by (simp add: recognisedSort_def)
  then show ?thesis using False applySort_desc[of ext] by simp
qed

lemma applySort_total:
  assumes "recognisedSort ext (TransactionSortDefault ext)"
  shows "applySort ext query s = Some (readerOrder ext query s)"
proof (cases "query = []")
  case False
  then show ?thesis by (simp add: applySort_query readerOrder_def)
next
  case True
  show ?thesis
  proof (cases "recognisedSort ext s")
    case True
    then show ?thesis using \<open>query = []\<close>
      by (simp add: applySort_recognised readerOrder_def effectiveSort_def)
  next
    case False
    then have "applySort ext [] s = applySort ext [] (TransactionSortDefault ext)"
      by (intro applySort_other) (auto simp: recognisedSort_def)
    then show ?thesis using \<open>query = []\<close> False assms
      by (simp add: applySort_recognised readerOrder_def effectiveSort_def)
  qed
qed

lemma countRows_disabled:
  "DisableCounting p \<Longrightarrow> countRows p n cq lo = (p, [], Inr 0)"
  by (simp add: countRows_def)

lemma countRows_short:
  "\<not> DisableCounting p \<Longrightarrow> int n < Limit p \<Longrightarrow>
   countRows p n cq lo = (p, [], Inr (word_of_int (Offset p) + word_of_nat n))"
  by (simp add: countRows_def)

lemma countRows_saturated:
  "\<not> DisableCounting p \<Longrightarrow> Limit p \<le> int n \<Longrightarrow>
   countRows p n cq lo = (clearListParams p, [cq (clearListParams p)], lo (clearListParams p))"
  by (simp add: countRows_def Let_def)

lemma countRows_cases:
  obtains (disabled) "DisableCounting p" "countRows p n cq lo = (p, [], Inr 0)"
  | (short) "\<not> DisableCounting p" "int n < Limit p"
      "countRows p n cq lo = (p, [], Inr (word_of_int (Offset p) + word_of_nat n))"
  | (saturated) "\<not> DisableCounting p" "Limit p \<le> int n"
      "countRows p n cq lo = (clearListParams p, [cq (clearListParams p)], lo (clearListParams p))"
  using countRows_disabled[of p n cq lo] countRows_short[of p n cq lo]
    countRows_saturated[of p n cq lo]
  by (cases "DisableCounting p"; cases "int n < Limit p") auto

lemma dressTransactions_log:
  "fst (dressTransactions db txs) = [] \<or>
   fst (dressTransactions db txs) = [TransactionOutputsQuery (map Transaction.ID txs)] \<or>
   fst (dressTransactions db txs) =
     [TransactionOutputsQuery (map Transaction.ID txs), TransactionInputsQuery (map Transaction.ID txs)]"
  by (simp add: dressTransactions_def Let_def split: sum.splits)

lemma dressTransactions_no_count:
  "list_all (\<lambda>q. \<not> isCountQuery q) (fst (dressTransactions db txs))"
  using dressTransactions_log[of db txs] by (auto simp: isCountQuery_def)

lemma dressAddresses_no_count:
  "list_all (\<lambda>q. \<not> isCountQuery q) (fst (dressAddresses db addrs))"
  by (simp add: dressAddresses_def Let_def isCountQuery_def)

lemma ListAssets_eq:
  assumes "loadAssets db p = Inr rows"
  shows "ListAssets db p =
     (fst (countRows p (length rows) CountAssetsQuery (countAssets db)),
      AssetsQuery p # fst (snd (countRows p (length rows) CountAssetsQuery (countAssets db))),
      map_sum id (\<lambda>count. \<lparr>ListMetadata.Count = count, AssetList.Assets = rows\<rparr>)
        (snd (snd (countRows p (length rows) CountAssetsQuery (countAssets db)))))"
  using assms by (simp add: ListAssets_def split: prod.splits sum.splits)

lemma ListAssets_count_triggered:
  assumes "ListAssets db p = (p', log, r)" and "CountAssetsQuery q \<in> set log"
  shows "p' = clearListParams p \<and> q = p'"
proof (cases "loadAssets db p")
  case (Inl e)
  then show ?thesis using assms by (auto simp: ListAssets_def)
next
  case (Inr rows)
  show ?thesis
  proof (cases rule: countRows_cases[of p "length rows" CountAssetsQuery "countAssets db"])
    case disabled
    then show ?thesis using assms Inr by (auto simp: ListAssets_def)
  next
    case short
    then show ?thesis using assms Inr by (auto simp: ListAssets_def)
  next
    case saturated
    then show ?thesis using assms Inr by (auto simp: ListAssets_def split: sum.splits)
  qed
qed

lemma ListAddresses_count_triggered:
  assumes "ListAddresses db p = (p', log, r)" and "CountAddressesQuery q \<in> set log"
  shows "p' = clearListParams p \<and> q = p'"
proof (cases "loadAddresses db p")
  case (Inl e)
  then show ?thesis using assms by (auto simp: ListAddresses_def)
next
  case (Inr rows)
  have nc: "CountAddressesQuery q \<notin> set (fst (dressAddresses db rows))"
    using dressAddresses_no_count[of db rows] by (auto simp: list_all_iff isCountQuery_def)
  show ?thesis
  proof (cases rule: countRows_cases[of p "length rows" CountAddressesQuery "countAddresses db"])
    case disabled
    then show ?thesis using assms Inr nc
      by (auto simp: ListAddresses_def split: prod.splits sum.splits)
  next
    case short
    then show ?thesis using assms Inr nc
      by (auto simp: ListAddresses_def split: prod.splits sum.splits)
  next
    case saturated
    then show ?thesis using assms Inr nc
      by (auto simp: ListAddresses_def split: prod.splits sum.splits)
  qed
qed

lemma listTransactionsSorted_count_triggered:
  assumes "listTransactionsSorted ext db p order = (p', log, r)"
    and "CountTransactionsQuery q d \<in> set log"
  shows "p' = clearListParams p \<and> q = p' \<and> d = NeedsDistinct ext p'"
proof (cases "loadTransactions db p (NeedsDistinct ext p) order")
  case (Inl e)
  then show ?thesis using assms by (auto simp: listTransactionsSorted_def Let_def)
next
  case (Inr rows)
  have nc: "CountTransactionsQuery q d \<notin> set (fst (dressTransactions db rows))"
    using dressTransactions_no_count[of db rows] by (auto simp: list_all_iff isCountQuery_def)
  show ?thesis
  proof (cases rule: countRows_cases[of p "length rows"
        "\<lambda>p'. CountTransactionsQuery p' (NeedsDistinct ext p')"
        "\<lambda>p'. countTransactions db p' (NeedsDistinct ext p')"])
    case disabled
    then show ?thesis using assms Inr nc
      by (auto simp: listTransactionsSorted_def Let_def split: prod.splits sum.splits)
  next
    case short
    then show ?thesis using assms Inr nc
      by (auto simp: listTransactionsSorted_def Let_def split: prod.splits sum.splits)
  next
    case saturated
    then show ?thesis using assms Inr nc
      by (auto simp: listTransactionsSorted_def Let_def split: prod.splits sum.splits)
  qed
qed

lemma ListTransactions_count_triggered:
  assumes "ListTransactions ext db p = Some (p', log, r)"
    and "CountTransactionsQuery q d \<in> set log"
  shows "p' = clearListParams p \<and> q = p' \<and> d = NeedsDistinct ext p'"
  using assms listTransactionsSorted_count_triggered
  by (auto simp: ListTransactions_def split: option.splits)

lemma ListOutputs_count_triggered:
  assumes "ListOutputs db p = (p', log, r)" and "CountOutputsQuery q \<in> set log"
  shows "p' = clearListParams p \<and> q = p'"
proof (cases "loadOutputs db p")
  case (Inl e)
  then show ?thesis using assms by (auto simp: ListOutputs_def)
next
  case (Inr rows)
  show ?thesis
  proof (cases "length rows < 1")
    case True
    then show ?thesis using assms Inr by (auto simp: ListOutputs_def)
  next
    case False
    show ?thesis
    proof (cases "loadOutputAddresses db (map Output.ID rows)")
      case (Inl e)
      then show ?thesis using assms Inr False by (auto simp: ListOutputs_def Let_def)
    next
      case addrs: (Inr addresses)
      show ?thesis
      proof (cases rule: countRows_cases[of p "length (foldl appendOutputAddress rows addresses)"
            CountOutputsQuery "countOutputs db"])
        case disabled
        then show ?thesis using assms Inr False addrs
          by (auto simp: ListOutputs_def Let_def split: prod.splits sum.splits)
      next
        case short
        then show ?thesis using assms Inr False addrs
          by (auto simp: ListOutputs_def Let_def split: prod.splits sum.splits)
      next
        case saturated
        then show ?thesis using assms Inr False addrs
          by (auto simp: ListOutputs_def Let_def split: prod.splits sum.splits)
      qed
    qed
  qed
qed

lemmas reader_eval =
  ListTransactions_def listTransactionsSorted_def ListAssets_def ListAddresses_def
  ListOutputs_def countRows_def clearListParams_def dressTransactions_def dressAddresses_def
  quietStorage_def sampleExternals_def sampleOutput_def Let_def

lemma listTransactionsSorted_first:
  "hd (fst (snd (listTransactionsSorted ext db p order))) =
     TransactionsQuery p (NeedsDistinct ext p) order"
  by (simp add: listTransactionsSorted_def Let_def split: sum.splits prod.splits)

lemma ListAssets_nocount:
  "DisableCounting p \<Longrightarrow>
   ListAssets db p =
     (p, [AssetsQuery p],
      case loadAssets db p of
        Inl e \<Rightarrow> Inl e
      | Inr rows \<Rightarrow> Inr \<lparr>ListMetadata.Count = 0, AssetList.Assets = rows\<rparr>)"
  by (simp add: ListAssets_def countRows_def split: sum.splits)

lemma listTransactionsSorted_nocount:
  "DisableCounting p \<Longrightarrow>
   listTransactionsSorted ext db p order =
     (case loadTransactions db p (NeedsDistinct ext p) order of
        Inl e \<Rightarrow> (p, [TransactionsQuery p (NeedsDistinct ext p) order], Inl e)
      | Inr txs \<Rightarrow>
          (p, TransactionsQuery p (NeedsDistinct ext p) order # fst (dressTransactions db txs),
           case snd (dressTransactions db txs) of
             Inl e \<Rightarrow> Inl e
           | Inr txs' \<Rightarrow> Inr \<lparr>ListMetadata.Count = 0, Transactions = txs'\<rparr>))"
  by (simp add: listTransactionsSorted_def countRows_def Let_def split: sum.splits prod.splits)

lemma ListAddresses_nocount:
  "DisableCounting p \<Longrightarrow>
   ListAddresses db p =
     (case loadAddresses db p of
        Inl e \<Rightarrow> (p, [AddressesQuery p], Inl e)
      | Inr rows \<Rightarrow>
          (p, AddressesQuery p # fst (dressAddresses db rows),
           case snd (dressAddresses db rows) of
             Inl e \<Rightarrow> Inl e
           | Inr rows' \<Rightarrow> Inr \<lparr>ListMetadata.Count = 0, AddressList.Addresses = rows'\<rparr>))"
  by (simp add: ListAddresses_def countRows_def split: sum.splits prod.splits)

lemma dressRows_length: "dressRows rows txs = Inr txs' \<Longrightarrow> length txs' = length txs"
  by (auto simp: dressRows_def Let_def split: sum.splits)

lemma dressTransactions_length:
  "snd (dressTransactions db txs) = Inr txs' \<Longrightarrow> length txs' = length txs"
  by (auto simp: dressTransactions_def Let_def dressRows_length split: sum.splits if_splits)

lemma queriedEntities_dressTransactions [simp]:
  "queriedEntities (fst (dressTransactions db txs)) = []"
  using dressTransactions_log[of db txs]
  by (auto simp: queriedEntities_def queriedEntity_def List.map_filter_simps)

lemma queriedEntities_dressAddresses [simp]:
  "queriedEntities (fst (dressAddresses db rows)) = []"
  by (simp add: dressAddresses_def Let_def queriedEntities_def queriedEntity_def
      List.map_filter_simps)

lemma queriedEntities_append [simp]:
  "queriedEntities (xs @ ys) = queriedEntities xs @ queriedEntities ys"
  by (simp add: queriedEntities_def map_filter_def)

lemma queriedEntities_Cons:
  "queriedEntities (q # qs) =
     (case queriedEntity q of None \<Rightarrow> queriedEntities qs | Some e \<Rightarrow> e # queriedEntities qs)"
  by (simp add: queriedEntities_def List.map_filter_simps split: option.splits)

lemma quiet_dressTransactions: "list_all quiet (fst (dressTransactions db txs))"
  using dressTransactions_log[of db txs]
  by (auto simp: quiet_def isCountQuery_def countingDisabled_def)

lemma quiet_dressAddresses: "list_all quiet (fst (dressAddresses db rows))"
  by (simp add: dressAddresses_def Let_def quiet_def isCountQuery_def countingDisabled_def)

lemma Search_free_text_unfold:
  assumes "SearchParams.Query p \<noteq> []"
    and "AddressFromString ext (SearchParams.Query p) = None"
    and "IDFromString ext (SearchParams.Query p) = None"
  shows "Search ext db p =
     (case ListAssets db (searchAssetsParams p) of
        (_, log, Inl e) \<Rightarrow> Some (log, Inl e)
      | (_, log, Inr assets) \<Rightarrow>
          if int (length (AssetList.Assets assets)) \<ge> Limit p
          then Some (log, collateSearchResults ext (Some assets) None None)
          else
            (case ListTransactions ext db (searchTransactionsParams p) of
               None \<Rightarrow> None
             | Some (_, log', Inl e) \<Rightarrow> Some (log @ log', Inl e)
             | Some (_, log', Inr transactions) \<Rightarrow>
                 if int (length (Transactions transactions)) \<ge> Limit p
                 then Some (log @ log',
                            collateSearchResults ext (Some assets) None (Some transactions))
                 else
                   (case ListAddresses db (searchAddressesParams p) of
                      (_, log'', Inl e) \<Rightarrow> Some (log @ log' @ log'', Inl e)
                    | (_, log'', Inr addresses) \<Rightarrow>
                        Some (log @ log' @ log'',
                              collateSearchResults ext (Some assets) (Some addresses)
                                (Some transactions)))))"
  using assms
  by (simp add: Search_def MinSearchQueryLength_def)

lemma quiet_AssetsQuery: "quiet (AssetsQuery (searchAssetsParams p))"
  by (simp add: quiet_def isCountQuery_def countingDisabled_def searchAssetsParams_def)

lemma quiet_TransactionsQuery: "quiet (TransactionsQuery (searchTransactionsParams p) d order)"
  by (simp add: quiet_def isCountQuery_def countingDisabled_def searchTransactionsParams_def)

lemma quiet_AddressesQuery: "quiet (AddressesQuery (searchAddressesParams p))"
  by (simp add: quiet_def isCountQuery_def countingDisabled_def searchAddressesParams_def)

lemma queriedEntity_simps [simp]:
  "queriedEntity (AssetsQuery pa) = Some AssetEntity"
  "queriedEntity (TransactionsQuery pt d order) = Some TransactionEntity"
  "queriedEntity (AddressesQuery pd) = Some AddressEntity"
  by (simp_all add: queriedEntity_def)

lemma queriedEntities_Nil [simp]: "queriedEntities [] = []"
  by (simp add: queriedEntities_def List.map_filter_simps)

section \<open>Properties of the list readers and of the search resolver\<close>

text \<open>
  Claim C8, as the code has it. Provided the default order is one of the two recognised
  orders (otherwise \<open>applySort\<close> would not return), every \<open>ListTransactions\<close> call returns
  and its first round trip is the transactions query with this ordering: none when a
  free-text query filter is set; otherwise chain identifier ascending first, then creation
  time, descending exactly when the effective sort (the given one if recognised, else the
  default) is the descending one.
\<close>

theorem ListTransactions_sort_policy:
  assumes "recognisedSort ext (TransactionSortDefault ext)"
  shows "\<exists>p' log r.
           ListTransactions ext db p =
             Some (p',
                   TransactionsQuery p (NeedsDistinct ext p)
                     (readerOrder ext (ListTransactionsParams.Query p) (Sort p)) # log,
                   r)"
proof -
  have "applySort ext (ListTransactionsParams.Query p) (Sort p) =
          Some (readerOrder ext (ListTransactionsParams.Query p) (Sort p))"
    using assms by (rule applySort_total)
  then show ?thesis
    by (auto simp: ListTransactions_def listTransactionsSorted_def Let_def
        split: sum.splits prod.splits)
qed

theorem ListTransactions_sort_policy_witness:
  "ListTransactions sampleExternals quietStorage
     \<lparr>Limit = 10, Offset = 0, DisableCounting = True, ListTransactionsParams.ID = None,
      ListTransactionsParams.Query = [], Sort = 7\<rparr> =
   Some (\<lparr>Limit = 10, Offset = 0, DisableCounting = True, ListTransactionsParams.ID = None,
          ListTransactionsParams.Query = [], Sort = 7\<rparr>,
         [TransactionsQuery
            \<lparr>Limit = 10, Offset = 0, DisableCounting = True, ListTransactionsParams.ID = None,
             ListTransactionsParams.Query = [], Sort = 7\<rparr>
            False
            [OrderAsc ''avm_transactions.chain_id'', OrderAsc ''avm_transactions.created_at'']],
         Inr \<lparr>ListMetadata.Count = 0, Transactions = []\<rparr>)"
proof -
  define P where "P = \<lparr>Limit = 10, Offset = 0, DisableCounting = True,
      ListTransactionsParams.ID = None, ListTransactionsParams.Query = [], Sort = 7\<rparr>"
  have d: "recognisedSort sampleExternals (TransactionSortDefault sampleExternals)"
    by (simp add: recognisedSort_def sampleExternals_def)
  have o: "readerOrder sampleExternals (ListTransactionsParams.Query P) (Sort P) =
      [OrderAsc ''avm_transactions.chain_id'', OrderAsc ''avm_transactions.created_at'']"
    by (simp add: P_def readerOrder_def effectiveSort_def recognisedSort_def chainThenTime_def
        sampleExternals_def)
  from ListTransactions_sort_policy[OF d, of quietStorage P]
  obtain p' log r where eq: "ListTransactions sampleExternals quietStorage P =
      Some (p', TransactionsQuery P (NeedsDistinct sampleExternals P)
        [OrderAsc ''avm_transactions.chain_id'', OrderAsc ''avm_transactions.created_at''] # log, r)"
    unfolding o by blast
  then obtain order where ord: "applySort sampleExternals (ListTransactionsParams.Query P) (Sort P) = Some order"
    and sorted: "listTransactionsSorted sampleExternals quietStorage P order =
      (p', TransactionsQuery P (NeedsDistinct sampleExternals P)
        [OrderAsc ''avm_transactions.chain_id'', OrderAsc ''avm_transactions.created_at''] # log, r)"
    by (auto simp: ListTransactions_def split: option.splits)
  have "hd (fst (snd (listTransactionsSorted sampleExternals quietStorage P order))) =
      TransactionsQuery P (NeedsDistinct sampleExternals P) order"
    by (rule listTransactionsSorted_first)
  then have "order =
      [OrderAsc ''avm_transactions.chain_id'', OrderAsc ''avm_transactions.created_at'']"
    using sorted by simp
  moreover have "\<not> NeedsDistinct sampleExternals x" for x
    by (simp add: sampleExternals_def)
  ultimately show ?thesis
    using ord unfolding P_def
    by (simp add: ListTransactions_def listTransactionsSorted_def countRows_def
        dressTransactions_def quietStorage_def Let_def)
qed

text \<open>
  The claim as stated makes the chain identifier the secondary key. The reader adds the
  chain identifier first, so it is the primary key and the creation time the secondary
  one: for the descending order the clauses are chain identifier ascending, then creation
  time descending.
\<close>

theorem ListTransactions_sort_policy_counterexample:
  "map_option (fst \<circ> snd)
     (ListTransactions sampleExternals quietStorage
        \<lparr>Limit = 10, Offset = 0, DisableCounting = True, ListTransactionsParams.ID = None,
         ListTransactionsParams.Query = [], Sort = 2\<rparr>) =
   Some [TransactionsQuery
           \<lparr>Limit = 10, Offset = 0, DisableCounting = True, ListTransactionsParams.ID = None,
            ListTransactionsParams.Query = [], Sort = 2\<rparr>
           False
           [OrderAsc ''avm_transactions.chain_id'', OrderDesc ''avm_transactions.created_at'']] \<and>
   [OrderAsc ''avm_transactions.chain_id'', OrderDesc ''avm_transactions.created_at''] \<noteq>
   [OrderDesc ''avm_transactions.created_at'', OrderAsc ''avm_transactions.chain_id'']"
proof -
  have "applySort sampleExternals [] 2 =
      Some [OrderAsc ''avm_transactions.chain_id'', OrderDesc ''avm_transactions.created_at'']"
    using applySort_desc[of sampleExternals]
    by (simp add: sampleExternals_def chainThenTime_def)
  then show ?thesis
    by (simp add: ListTransactions_def listTransactionsSorted_def countRows_def
        dressTransactions_def quietStorage_def sampleExternals_def Let_def)
qed

text \<open>
  Claim C6 at an empty page of \<open>ListOutputs\<close>, with limit 10 and offset 20 and counting
  enabled: the early return reports the count 0 and skips the counting block, where
  \<open>ListAssets\<close> on the same page reports offset + 0 = 20.
\<close>

theorem ListOutputs_empty_page_count:
  "ListOutputs quietStorage
     \<lparr>Limit = 10, Offset = 20, DisableCounting = False, ListOutputsParams.ID = None\<rparr> =
   (\<lparr>Limit = 10, Offset = 20, DisableCounting = False, ListOutputsParams.ID = None\<rparr>,
    [OutputsQuery \<lparr>Limit = 10, Offset = 20, DisableCounting = False, ListOutputsParams.ID = None\<rparr>],
    Inr \<lparr>ListMetadata.Count = 0, OutputList.Outputs = []\<rparr>) \<and>
   ListAssets quietStorage
     \<lparr>Limit = 10, Offset = 20, DisableCounting = False, ListAssetsParams.ID = None, Alias = [],
      ListAssetsParams.Query = []\<rparr> =
   (\<lparr>Limit = 10, Offset = 20, DisableCounting = False, ListAssetsParams.ID = None, Alias = [],
      ListAssetsParams.Query = []\<rparr>,
    [AssetsQuery \<lparr>Limit = 10, Offset = 20, DisableCounting = False, ListAssetsParams.ID = None,
       Alias = [], ListAssetsParams.Query = []\<rparr>],
    Inr \<lparr>ListMetadata.Count = 20, AssetList.Assets = []\<rparr>)"
  by (simp add: reader_eval)

text \<open>
  Claim C10, as the code has it. In each of the four readers, whenever a count query is
  among the round trips of a call, the parameter object the call leaves behind is the
  caller's with its embedded \<open>ListParams\<close> set to the zero value, all other fields kept, and
  the count query was built from that cleared object.
\<close>

theorem List_count_clears_ListParams:
  "(ListTransactions ext db pt = Some (pt', lt, rt) \<and> CountTransactionsQuery qt d \<in> set lt \<longrightarrow>
      pt' = clearListParams pt \<and> qt = pt') \<and>
   (ListAssets db pa = (pa', la, ra) \<and> CountAssetsQuery qa \<in> set la \<longrightarrow>
      pa' = clearListParams pa \<and> qa = pa') \<and>
   (ListAddresses db pd = (pd', ld, rd) \<and> CountAddressesQuery qd \<in> set ld \<longrightarrow>
      pd' = clearListParams pd \<and> qd = pd') \<and>
   (ListOutputs db po = (po', lo, ro) \<and> CountOutputsQuery qo \<in> set lo \<longrightarrow>
      po' = clearListParams po \<and> qo = po')"
  using ListTransactions_count_triggered[of ext db pt pt' lt rt qt d]
    ListAssets_count_triggered[of db pa pa' la ra qa]
    ListAddresses_count_triggered[of db pd pd' ld rd qd]
    ListOutputs_count_triggered[of db po po' lo ro qo]
  by blast

theorem List_count_clears_ListParams_witness:
  "map_option fst
     (ListTransactions sampleExternals oneOutputStorage
        \<lparr>Limit = 0, Offset = 5, DisableCounting = False, ListTransactionsParams.ID = None,
         ListTransactionsParams.Query = [], Sort = 1\<rparr>) =
   Some \<lparr>Limit = 0, Offset = 0, DisableCounting = False, ListTransactionsParams.ID = None,
         ListTransactionsParams.Query = [], Sort = 1\<rparr> \<and>
   fst (ListAssets oneOutputStorage
        \<lparr>Limit = 0, Offset = 5, DisableCounting = False, ListAssetsParams.ID = None,
         Alias = [], ListAssetsParams.Query = ''x''\<rparr>) =
     \<lparr>Limit = 0, Offset = 0, DisableCounting = False, ListAssetsParams.ID = None,
      Alias = [], ListAssetsParams.Query = ''x''\<rparr> \<and>
   fst (ListAddresses oneOutputStorage
        \<lparr>Limit = 0, Offset = 5, DisableCounting = False, ListAddressesParams.Address = None,
         ListAddressesParams.Query = ''x''\<rparr>) =
     \<lparr>Limit = 0, Offset = 0, DisableCounting = False, ListAddressesParams.Address = None,
      ListAddressesParams.Query = ''x''\<rparr> \<and>
   fst (ListOutputs oneOutputStorage
        \<lparr>Limit = 1, Offset = 5, DisableCounting = False, ListOutputsParams.ID = None\<rparr>) =
     \<lparr>Limit = 0, Offset = 0, DisableCounting = False, ListOutputsParams.ID = None\<rparr>"
proof -
  define db where "db = oneOutputStorage"
  define pt where "pt = \<lparr>Limit = 0, Offset = 5, DisableCounting = False,
      ListTransactionsParams.ID = None, ListTransactionsParams.Query = [], Sort = 1\<rparr>"
  define pa where "pa = \<lparr>Limit = 0, Offset = 5, DisableCounting = False,
      ListAssetsParams.ID = None, Alias = [], ListAssetsParams.Query = ''x''\<rparr>"
  define pd where "pd = \<lparr>Limit = 0, Offset = 5, DisableCounting = False,
      ListAddressesParams.Address = None, ListAddressesParams.Query = ''x''\<rparr>"
  define po where "po = \<lparr>Limit = 1, Offset = 5, DisableCounting = False,
      ListOutputsParams.ID = None\<rparr>"
  have srt: "applySort sampleExternals [] 1 = Some (chainThenTime False)"
    using applySort_asc[of sampleExternals] by (simp add: sampleExternals_def)
  have nd: "\<not> NeedsDistinct sampleExternals x" for x by (simp add: sampleExternals_def)
  have db: "db = quietStorage\<lparr>loadOutputs := (\<lambda>_. Inr [sampleOutput ''o1'' ''t1'' ''a'' ''5'' []])\<rparr>"
    by (simp add: db_def oneOutputStorage_def)
  have et: "ListTransactions sampleExternals db pt =
      Some (clearListParams pt,
            [TransactionsQuery pt False (chainThenTime False),
             CountTransactionsQuery (clearListParams pt) False],
            Inr \<lparr>ListMetadata.Count = 0, Transactions = []\<rparr>)"
    using srt nd
    by (simp add: pt_def db ListTransactions_def listTransactionsSorted_def countRows_def
        dressTransactions_def quietStorage_def Let_def)
  have ea: "ListAssets db pa =
      (clearListParams pa, [AssetsQuery pa, CountAssetsQuery (clearListParams pa)],
       Inr \<lparr>ListMetadata.Count = 0, AssetList.Assets = []\<rparr>)"
    by (simp add: pa_def db ListAssets_def countRows_def quietStorage_def Let_def)
  have ed: "ListAddresses db pd =
      (clearListParams pd, [AddressesQuery pd, CountAddressesQuery (clearListParams pd)],
       Inr \<lparr>ListMetadata.Count = 0, AddressList.Addresses = []\<rparr>)"
    by (simp add: pd_def db ListAddresses_def countRows_def dressAddresses_def
        quietStorage_def Let_def)
  have eo: "ListOutputs db po =
      (clearListParams po,
       [OutputsQuery po, OutputAddressesQuery [''o1''], CountOutputsQuery (clearListParams po)],
       Inr \<lparr>ListMetadata.Count = 0,
            OutputList.Outputs = [sampleOutput ''o1'' ''t1'' ''a'' ''5'' []]\<rparr>)"
    by (simp add: po_def db ListOutputs_def countRows_def quietStorage_def Let_def
        sampleOutput_def)
  have "map_option fst (ListTransactions sampleExternals db pt) = Some (clearListParams pt) \<and>
        fst (ListAssets db pa) = clearListParams pa \<and>
        fst (ListAddresses db pd) = clearListParams pd \<and>
        fst (ListOutputs db po) = clearListParams po"
    using List_count_clears_ListParams[where ext = sampleExternals and db = db
        and pt = pt and pt' = "clearListParams pt"
        and lt = "[TransactionsQuery pt False (chainThenTime False),
                   CountTransactionsQuery (clearListParams pt) False]"
        and rt = "Inr \<lparr>ListMetadata.Count = 0, Transactions = []\<rparr>"
        and qt = "clearListParams pt" and d = False
        and pa = pa and pa' = "clearListParams pa"
        and la = "[AssetsQuery pa, CountAssetsQuery (clearListParams pa)]"
        and ra = "Inr \<lparr>ListMetadata.Count = 0, AssetList.Assets = []\<rparr>"
        and qa = "clearListParams pa"
        and pd = pd and pd' = "clearListParams pd"
        and ld = "[AddressesQuery pd, CountAddressesQuery (clearListParams pd)]"
        and rd = "Inr \<lparr>ListMetadata.Count = 0, AddressList.Addresses = []\<rparr>"
        and qd = "clearListParams pd"
        and po = po and po' = "clearListParams po"
        and lo = "[OutputsQuery po, OutputAddressesQuery [''o1''],
                   CountOutputsQuery (clearListParams po)]"
        and ro = "Inr \<lparr>ListMetadata.Count = 0,
                     OutputList.Outputs = [sampleOutput ''o1'' ''t1'' ''a'' ''5'' []]\<rparr>"
        and qo = "clearListParams po"]
      et ea ed eo
    by simp
  then show ?thesis
    unfolding db_def pt_def pa_def pd_def po_def
    by (simp add: clearListParams_def)
qed

text \<open>
  The claim as stated concludes that the object no longer holds its original values. That
  fails when the embedded \<open>ListParams\<close> was the zero value already, as in the parameter
  objects the singular accessors build: limit 0 makes every page saturated, the count
  query is issued, and the object is unchanged.
\<close>

theorem List_count_clears_ListParams_counterexample:
  "ListAssets quietStorage
     \<lparr>Limit = 0, Offset = 0, DisableCounting = False, ListAssetsParams.ID = None,
      Alias = ''AVAX'', ListAssetsParams.Query = []\<rparr> =
   (\<lparr>Limit = 0, Offset = 0, DisableCounting = False, ListAssetsParams.ID = None,
      Alias = ''AVAX'', ListAssetsParams.Query = []\<rparr>,
    [AssetsQuery \<lparr>Limit = 0, Offset = 0, DisableCounting = False, ListAssetsParams.ID = None,
       Alias = ''AVAX'', ListAssetsParams.Query = []\<rparr>,
     CountAssetsQuery \<lparr>Limit = 0, Offset = 0, DisableCounting = False,
       ListAssetsParams.ID = None, Alias = ''AVAX'', ListAssetsParams.Query = []\<rparr>],
    Inr \<lparr>ListMetadata.Count = 0, AssetList.Assets = []\<rparr>)"
  by (simp add: reader_eval)

text \<open>
  Claim C4, as the code has it. For a non-empty query string that parses neither as a
  short identifier nor as an identifier (and a recognised default order), \<open>Search\<close>
  returns; none of its round trips is a count query and every list query is built from a
  parameter object with counting disabled; the entities read are assets, then
  transactions, then addresses, or a prefix of that; transactions are read exactly when
  the assets query succeeded with fewer rows than the limit, and addresses exactly when,
  moreover, the transactions were loaded and dressed and are themselves fewer than the
  limit.
\<close>

theorem Search_free_text:
  assumes freeText: "SearchParams.Query p \<noteq> []"
    and noShort: "AddressFromString ext (SearchParams.Query p) = None"
    and noID: "IDFromString ext (SearchParams.Query p) = None"
    and dflt: "recognisedSort ext (TransactionSortDefault ext)"
  shows "\<exists>log r.
     Search ext db p = Some (log, r) \<and> list_all quiet log \<and>
     (queriedEntities log = [AssetEntity] \<or>
      queriedEntities log = [AssetEntity, TransactionEntity] \<or>
      queriedEntities log = [AssetEntity, TransactionEntity, AddressEntity]) \<and>
     (TransactionEntity \<in> set (queriedEntities log) \<longleftrightarrow>
        (\<exists>assets. loadAssets db (searchAssetsParams p) = Inr assets \<and>
                  int (length assets) < Limit p)) \<and>
     (AddressEntity \<in> set (queriedEntities log) \<longleftrightarrow>
        (\<exists>assets txs txs'.
            loadAssets db (searchAssetsParams p) = Inr assets \<and>
            int (length assets) < Limit p \<and>
            loadTransactions db (searchTransactionsParams p)
              (NeedsDistinct ext (searchTransactionsParams p))
              (readerOrder ext (SearchParams.Query p) 0) = Inr txs \<and>
            snd (dressTransactions db txs) = Inr txs' \<and>
            int (length txs) < Limit p))"
proof -
  define pa where "pa = searchAssetsParams p"
  define pt where "pt = searchTransactionsParams p"
  define pd where "pd = searchAddressesParams p"
  define order where "order = readerOrder ext (SearchParams.Query p) 0"
  define d where "d = NeedsDistinct ext pt"
  have dis: "DisableCounting pa" "DisableCounting pt" "DisableCounting pd"
    by (simp_all add: pa_def pt_def pd_def searchAssetsParams_def searchTransactionsParams_def
        searchAddressesParams_def)
  have LA: "ListAssets db pa =
     (pa, [AssetsQuery pa],
      case loadAssets db pa of
        Inl e \<Rightarrow> Inl e
      | Inr rows \<Rightarrow> Inr \<lparr>ListMetadata.Count = 0, AssetList.Assets = rows\<rparr>)"
    using dis(1) by (rule ListAssets_nocount)
  have "applySort ext (ListTransactionsParams.Query pt) (Sort pt) = Some order"
    using applySort_total[OF dflt, of "SearchParams.Query p" 0]
    by (simp add: pt_def order_def searchTransactionsParams_def)
  then have LT: "ListTransactions ext db pt =
     Some (case loadTransactions db pt d order of
        Inl e \<Rightarrow> (pt, [TransactionsQuery pt d order], Inl e)
      | Inr txs \<Rightarrow>
          (pt, TransactionsQuery pt d order # fst (dressTransactions db txs),
           case snd (dressTransactions db txs) of
             Inl e \<Rightarrow> Inl e
           | Inr txs' \<Rightarrow> Inr \<lparr>ListMetadata.Count = 0, Transactions = txs'\<rparr>))"
    using listTransactionsSorted_nocount[OF dis(2), of ext db order]
    unfolding d_def by (simp add: ListTransactions_def)
  have LD: "ListAddresses db pd =
     (case loadAddresses db pd of
        Inl e \<Rightarrow> (pd, [AddressesQuery pd], Inl e)
      | Inr rows \<Rightarrow>
          (pd, AddressesQuery pd # fst (dressAddresses db rows),
           case snd (dressAddresses db rows) of
             Inl e \<Rightarrow> Inl e
           | Inr rows' \<Rightarrow> Inr \<lparr>ListMetadata.Count = 0, AddressList.Addresses = rows'\<rparr>))"
    using dis(3) by (rule ListAddresses_nocount)
  have qa: "quiet (AssetsQuery pa)" unfolding pa_def by (rule quiet_AssetsQuery)
  have qt: "quiet (TransactionsQuery pt d order)" unfolding pt_def by (rule quiet_TransactionsQuery)
  have qd: "quiet (AddressesQuery pd)" unfolding pd_def by (rule quiet_AddressesQuery)
  note S = Search_free_text_unfold[OF freeText noShort noID, of db, folded pa_def pt_def pd_def]
  show ?thesis
    unfolding pa_def[symmetric] pt_def[symmetric] pd_def[symmetric] order_def[symmetric]
      d_def[symmetric]
  proof (cases "loadAssets db pa")
    case (Inl e)
    then have "Search ext db p = Some ([AssetsQuery pa], Inl e)"
      by (simp add: S LA)
    then show "\<exists>log r.
       Search ext db p = Some (log, r) \<and> list_all quiet log \<and>
       (queriedEntities log = [AssetEntity] \<or>
        queriedEntities log = [AssetEntity, TransactionEntity] \<or>
        queriedEntities log = [AssetEntity, TransactionEntity, AddressEntity]) \<and>
       (TransactionEntity \<in> set (queriedEntities log) \<longleftrightarrow>
          (\<exists>assets. loadAssets db pa = Inr assets \<and> int (length assets) < Limit p)) \<and>
       (AddressEntity \<in> set (queriedEntities log) \<longleftrightarrow>
          (\<exists>assets txs txs'.
              loadAssets db pa = Inr assets \<and> int (length assets) < Limit p \<and>
              loadTransactions db pt d order = Inr txs \<and>
              snd (dressTransactions db txs) = Inr txs' \<and> int (length txs) < Limit p))"
      using Inl qa by (simp add: queriedEntities_Cons)
  next
    case assets: (Inr assets)
    show "\<exists>log r.
       Search ext db p = Some (log, r) \<and> list_all quiet log \<and>
       (queriedEntities log = [AssetEntity] \<or>
        queriedEntities log = [AssetEntity, TransactionEntity] \<or>
        queriedEntities log = [AssetEntity, TransactionEntity, AddressEntity]) \<and>
       (TransactionEntity \<in> set (queriedEntities log) \<longleftrightarrow>
          (\<exists>assets. loadAssets db pa = Inr assets \<and> int (length assets) < Limit p)) \<and>
       (AddressEntity \<in> set (queriedEntities log) \<longleftrightarrow>
          (\<exists>assets txs txs'.
              loadAssets db pa = Inr assets \<and> int (length assets) < Limit p \<and>
              loadTransactions db pt d order = Inr txs \<and>
              snd (dressTransactions db txs) = Inr txs' \<and> int (length txs) < Limit p))"
    proof (cases "Limit p \<le> int (length assets)")
      case True
      then have "Search ext db p =
          Some ([AssetsQuery pa],
                collateSearchResults ext
                  (Some \<lparr>ListMetadata.Count = 0, AssetList.Assets = assets\<rparr>) None None)"
        using assets by (simp add: S LA)
      then show ?thesis using True assets qa by (simp add: queriedEntities_Cons)
    next
      case short: False
      show ?thesis
      proof (cases "loadTransactions db pt d order")
        case (Inl e)
        then have "Search ext db p = Some ([AssetsQuery pa, TransactionsQuery pt d order], Inl e)"
          using assets short by (simp add: S LA LT)
        then show ?thesis using Inl assets short qa qt by (simp add: queriedEntities_Cons)
      next
        case txs: (Inr txs)
        define dl where "dl = fst (dressTransactions db txs)"
        have qdl: "list_all quiet dl" unfolding dl_def by (rule quiet_dressTransactions)
        have edl: "queriedEntities dl = []" unfolding dl_def by simp
        show ?thesis
        proof (cases "snd (dressTransactions db txs)")
          case (Inl e)
          then have "Search ext db p =
              Some (AssetsQuery pa # TransactionsQuery pt d order # dl, Inl e)"
            using assets short txs by (simp add: S LA LT dl_def)
          then show ?thesis using Inl assets short txs qa qt qdl edl
            by (simp add: queriedEntities_Cons)
        next
          case dressed: (Inr txs')
          have len: "length txs' = length txs"
            using dressed by (rule dressTransactions_length)
          show ?thesis
          proof (cases "Limit p \<le> int (length txs)")
            case True
            then have "Search ext db p =
                Some (AssetsQuery pa # TransactionsQuery pt d order # dl,
                      collateSearchResults ext
                        (Some \<lparr>ListMetadata.Count = 0, AssetList.Assets = assets\<rparr>) None
                        (Some \<lparr>ListMetadata.Count = 0, Transactions = txs'\<rparr>))"
              using assets short txs dressed len by (simp add: S LA LT dl_def)
            then show ?thesis using True assets short txs dressed qa qt qdl edl
              by (simp add: queriedEntities_Cons)
          next
            case short2: False
            obtain al ar where ld: "ListAddresses db pd = (pd, AddressesQuery pd # al, ar)"
              and qal: "list_all quiet al" and eal: "queriedEntities al = []"
              using LD quiet_dressAddresses queriedEntities_dressAddresses
              by (cases "loadAddresses db pd") (auto simp: quiet_def)
            have "\<exists>r. Search ext db p =
                Some (AssetsQuery pa # TransactionsQuery pt d order # dl @ AddressesQuery pd # al, r)"
              using assets short txs dressed len short2 ld
              by (cases ar) (simp_all add: S LA LT dl_def)
            then show ?thesis using short2 assets short txs dressed qa qt qd qdl edl qal eal
              by (auto simp: queriedEntities_Cons)
          qed
        qed
      qed
    qed
  qed
qed

theorem Search_free_text_witness:
  "map_option (queriedEntities \<circ> fst)
     (Search sampleExternals searchStorage (searchFor 1 ''gold'')) = Some [AssetEntity]"
proof -
  have t: "SearchParams.Query (searchFor 1 ''gold'') \<noteq> []" by (simp add: searchFor_def)
  have a: "AddressFromString sampleExternals (SearchParams.Query (searchFor 1 ''gold'')) = None"
    by (simp add: sampleExternals_def)
  have i: "IDFromString sampleExternals (SearchParams.Query (searchFor 1 ''gold'')) = None"
    by (simp add: sampleExternals_def)
  have d: "recognisedSort sampleExternals (TransactionSortDefault sampleExternals)"
    by (simp add: recognisedSort_def sampleExternals_def)
  have rows: "loadAssets searchStorage (searchAssetsParams (searchFor 1 ''gold'')) =
      Inr [sampleAsset]"
    by (simp add: searchStorage_def quietStorage_def)
  have lim: "Limit (searchFor 1 ''gold'') = 1" by (simp add: searchFor_def)
  from Search_free_text[OF t a i d, of searchStorage]
  obtain log r where s: "Search sampleExternals searchStorage (searchFor 1 ''gold'') = Some (log, r)"
    and shape: "queriedEntities log = [AssetEntity] \<or>
      queriedEntities log = [AssetEntity, TransactionEntity] \<or>
      queriedEntities log = [AssetEntity, TransactionEntity, AddressEntity]"
    and tx: "TransactionEntity \<in> set (queriedEntities log) \<longleftrightarrow>
        (\<exists>assets. loadAssets searchStorage (searchAssetsParams (searchFor 1 ''gold'')) = Inr assets \<and>
                  int (length assets) < Limit (searchFor 1 ''gold''))"
    by blast
  have "TransactionEntity \<notin> set (queriedEntities log)"
    using tx rows lim by simp
  then have "queriedEntities log = [AssetEntity]" using shape by auto
  then show ?thesis using s by simp
qed

text \<open>
  The claim as stated compares the accumulated result count with the limit. The code
  compares the count of the entity type just read: with limit 2, one asset and one
  transaction (two results so far), the addresses are still queried.
\<close>

theorem Search_free_text_counterexample:
  "map_option fst (Search sampleExternals searchStorage (searchFor 2 ''gold'')) =
     Some [AssetsQuery (searchAssetsParams (searchFor 2 ''gold'')),
           TransactionsQuery (searchTransactionsParams (searchFor 2 ''gold'')) False [],
           TransactionOutputsQuery [''t1''], TransactionInputsQuery [''t1''],
           AddressesQuery (searchAddressesParams (searchFor 2 ''gold''))] \<and>
   map_option (map_sum id (\<lambda>r. length (Results r)) \<circ> snd)
     (Search sampleExternals searchStorage (searchFor 2 ''gold'')) = Some (Inr 2) \<and>
   Limit (searchFor 2 ''gold'') = 2"
proof -
  have srt: "applySort sampleExternals ''gold'' 0 = Some []"
    by (rule applySort_query) simp
  have nd: "\<not> NeedsDistinct sampleExternals x" for x by (simp add: sampleExternals_def)
  have a: "AddressFromString sampleExternals x = None" for x by (simp add: sampleExternals_def)
  have i: "IDFromString sampleExternals x = None" for x by (simp add: sampleExternals_def)
  show ?thesis
    using srt nd
    by (simp add: Search_def MinSearchQueryLength_def a i searchFor_def
        searchTransactionsParams_def searchAssetsParams_def searchAddressesParams_def
        ListAssets_def ListTransactions_def listTransactionsSorted_def ListAddresses_def
        countRows_def dressTransactions_def dressRows_def dressAddresses_def
        collateSearchResults_def searchStorage_def quietStorage_def sampleTransaction_def
        Let_def emptyDressMaps_def)
qed

section \<open>The transaction dressing engine: supporting lemmas\<close>

lemma lookupOrEmpty_Nil [simp]: "lookupOrEmpty [] k = []"
  by (simp add: lookupOrEmpty_def)

lemma lookupOrEmpty_update:
  "lookupOrEmpty (AList.update k v m) k' = (if k' = k then v else lookupOrEmpty m k')"
  by (simp add: lookupOrEmpty_def update_conv')

lemma lookupOrEmpty_ensureKey [simp]: "lookupOrEmpty (ensureKey k m) k' = lookupOrEmpty m k'"
  by (auto simp: ensureKey_def lookupOrEmpty_def update_conv')

lemma lookupOrEmpty_setNested:
  "lookupOrEmpty (setNested k1 k2 v m) k' =
     (if k' = k1 then AList.update k2 v (lookupOrEmpty m k1) else lookupOrEmpty m k')"
  by (simp add: setNested_def lookupOrEmpty_update)

lemma map_of_addToBigIntMap:
  "map_of (addToBigIntMap m asset amt) a =
     (if a = asset then Some (amt + (case map_of m asset of None \<Rightarrow> 0 | Some prev \<Rightarrow> prev))
      else map_of m a)"
  by (simp add: addToBigIntMap_def Let_def update_conv')

lemma distinct_addToBigIntMap:
  "distinct (map fst m) \<Longrightarrow> distinct (map fst (addToBigIntMap m asset amt))"
  by (simp add: addToBigIntMap_def Let_def distinct_update)

lemma in_set_distinct_map_of:
  "distinct (map fst al) \<Longrightarrow> (k, v) \<in> set al \<longleftrightarrow> map_of al k = Some v"
  by (auto dest: map_of_SomeD)

lemma set_update_subset:
  "(k', v') \<in> set (AList.update k v al) \<Longrightarrow> (k' = k \<and> v' = v) \<or> (k', v') \<in> set al"
  by (induction al) (auto split: if_splits)

lemma inputsMap_collectOutput:
  "lookupOrEmpty (inputsMap (collectOutput i r amt m)) tx =
     (if tx = RedeemingTransactionID (compositeRecord.Output r)
      then AList.update (Output.ID (compositeRecord.Output r)) \<lparr>refOutput = i, refCreds = []\<rparr>
             (lookupOrEmpty (inputsMap m) tx)
      else lookupOrEmpty (inputsMap m) tx)"
  by (simp add: collectOutput_def Let_def lookupOrEmpty_setNested)

lemma outputsMap_collectOutput:
  "lookupOrEmpty (outputsMap (collectOutput i r amt m)) tx =
     (if tx = TransactionID (compositeRecord.Output r)
      then AList.update (Output.ID (compositeRecord.Output r)) i (lookupOrEmpty (outputsMap m) tx)
      else lookupOrEmpty (outputsMap m) tx)"
  by (simp add: collectOutput_def Let_def lookupOrEmpty_setNested)

lemma outputTotalsMap_collectOutput:
  "lookupOrEmpty (outputTotalsMap (collectOutput i r amt m)) tx =
     (if tx = TransactionID (compositeRecord.Output r)
      then addToBigIntMap (lookupOrEmpty (outputTotalsMap m) tx)
             (Output.AssetID (compositeRecord.Output r)) amt
      else lookupOrEmpty (outputTotalsMap m) tx)"
  by (simp add: collectOutput_def Let_def lookupOrEmpty_update)

lemma inputTotalsMap_collectOutput:
  "lookupOrEmpty (inputTotalsMap (collectOutput i r amt m)) tx =
     (if tx = RedeemingTransactionID (compositeRecord.Output r)
      then addToBigIntMap (lookupOrEmpty (inputTotalsMap m) tx)
             (Output.AssetID (compositeRecord.Output r)) amt
      else lookupOrEmpty (inputTotalsMap m) tx)"
  by (simp add: collectOutput_def Let_def lookupOrEmpty_update)

lemma outputAddrs_collectOutput:
  "lookupOrEmpty (outputAddrs (collectOutput i r amt m)) oid =
     (if oid = Output.ID (compositeRecord.Output r)
      then List.insert (OutputAddress.Address (compositeRecord.OutputAddress r))
             (lookupOrEmpty (outputAddrs m) oid)
      else lookupOrEmpty (outputAddrs m) oid)"
  by (simp add: collectOutput_def Let_def lookupOrEmpty_update)

lemma dressInv_empty: "dressInv emptyDressMaps []"
  by (simp add: dressInv_def emptyDressMaps_def totalsInv_def inputsInv_def outputsInv_def
      addrsInv_def keysInv_def rowsFor_def addressesOf_def)

lemma rowsFor_snoc:
  "rowsFor key tx a (pre @ [r]) =
     (if key (compositeRecord.Output r) = tx \<and> Output.AssetID (compositeRecord.Output r) = a
      then rowsFor key tx a pre @ [r] else rowsFor key tx a pre)"
  by (simp add: rowsFor_def)

lemma totalsInv_step:
  assumes inv: "totalsInv key TM pre"
    and amt: "bigIntSetString (Amount (compositeRecord.Output r)) = Some amt"
    and TM': "\<And>tx. TM' tx =
      (if tx = key (compositeRecord.Output r)
       then addToBigIntMap (TM tx) (Output.AssetID (compositeRecord.Output r)) amt else TM tx)"
  shows "totalsInv key TM' (pre @ [r])"
proof -
  have a: "amountOf r = amt" using amt by (simp add: amountOf_def)
  show ?thesis
    unfolding totalsInv_def
  proof (intro allI conjI)
    fix tx
    show "distinct (map fst (TM' tx))"
      using inv by (simp add: TM' totalsInv_def distinct_addToBigIntMap)
  next
    fix tx asset
    have old: "map_of (TM tx) asset =
        (if rowsFor key tx asset pre = [] then None
         else Some (sum_list (map amountOf (rowsFor key tx asset pre))))"
      using inv by (simp add: totalsInv_def)
    show "map_of (TM' tx) asset =
        (if rowsFor key tx asset (pre @ [r]) = [] then None
         else Some (sum_list (map amountOf (rowsFor key tx asset (pre @ [r])))))"
    proof (cases "key (compositeRecord.Output r) = tx \<and>
                  Output.AssetID (compositeRecord.Output r) = asset")
      case True
      then show ?thesis
        using old a by (auto simp: TM' map_of_addToBigIntMap rowsFor_snoc)
    next
      case False
      then show ?thesis
        using old by (auto simp: TM' map_of_addToBigIntMap rowsFor_snoc)
    qed
  qed
qed

lemma inputsInv_step:
  assumes inv: "inputsInv IM pre"
    and IM': "\<And>tx. IM' tx =
      (if tx = RedeemingTransactionID (compositeRecord.Output r)
       then AList.update (Output.ID (compositeRecord.Output r))
              \<lparr>refOutput = length pre, refCreds = []\<rparr> (IM tx)
       else IM tx)"
  shows "inputsInv IM' (pre @ [r])"
  unfolding inputsInv_def
proof (intro allI conjI)
  fix tx
  show "distinct (map fst (IM' tx))"
    using inv by (simp add: IM' inputsInv_def distinct_update)
next
  fix tx k ref
  show "(k, ref) \<in> set (IM' tx) \<longrightarrow>
      refOutput ref < length (pre @ [r]) \<and>
      Output.ID (compositeRecord.Output ((pre @ [r]) ! refOutput ref)) = k \<and>
      RedeemingTransactionID (compositeRecord.Output ((pre @ [r]) ! refOutput ref)) = tx \<and>
      refCreds ref = []"
  proof
  assume mem: "(k, ref) \<in> set (IM' tx)"
  have old: "(k, ref) \<in> set (IM tx) \<Longrightarrow>
      refOutput ref < length pre \<and>
      Output.ID (compositeRecord.Output (pre ! refOutput ref)) = k \<and>
      RedeemingTransactionID (compositeRecord.Output (pre ! refOutput ref)) = tx \<and>
      refCreds ref = []"
    using inv by (simp add: inputsInv_def)
  consider (new) "tx = RedeemingTransactionID (compositeRecord.Output r)"
      "k = Output.ID (compositeRecord.Output r)" "ref = \<lparr>refOutput = length pre, refCreds = []\<rparr>"
    | (old) "(k, ref) \<in> set (IM tx)"
    using mem set_update_subset[of k ref "Output.ID (compositeRecord.Output r)"
        "\<lparr>refOutput = length pre, refCreds = []\<rparr>" "IM tx"]
    by (auto simp: IM' split: if_splits)
  then show "refOutput ref < length (pre @ [r]) \<and>
      Output.ID (compositeRecord.Output ((pre @ [r]) ! refOutput ref)) = k \<and>
      RedeemingTransactionID (compositeRecord.Output ((pre @ [r]) ! refOutput ref)) = tx \<and>
      refCreds ref = []"
  proof cases
    case new
    then show ?thesis by simp
  next
    case old
    then show ?thesis using \<open>(k, ref) \<in> set (IM tx) \<Longrightarrow> _\<close> by (simp add: nth_append)
  qed
qed
qed

lemma outputsInv_step:
  assumes inv: "outputsInv OM pre"
    and OM': "\<And>tx. OM' tx =
      (if tx = TransactionID (compositeRecord.Output r)
       then AList.update (Output.ID (compositeRecord.Output r)) (length pre) (OM tx)
       else OM tx)"
  shows "outputsInv OM' (pre @ [r])"
  unfolding outputsInv_def
proof (intro allI impI)
  fix tx k j
  assume mem: "(k, j) \<in> set (OM' tx)"
  have old: "(k, j) \<in> set (OM tx) \<Longrightarrow>
      j < length pre \<and> Output.ID (compositeRecord.Output (pre ! j)) = k \<and>
      TransactionID (compositeRecord.Output (pre ! j)) = tx"
    using inv by (simp add: outputsInv_def)
  consider (new) "tx = TransactionID (compositeRecord.Output r)"
      "k = Output.ID (compositeRecord.Output r)" "j = length pre"
    | (old) "(k, j) \<in> set (OM tx)"
    using mem set_update_subset[of k j "Output.ID (compositeRecord.Output r)" "length pre" "OM tx"]
    by (auto simp: OM' split: if_splits)
  then show "j < length (pre @ [r]) \<and>
      Output.ID (compositeRecord.Output ((pre @ [r]) ! j)) = k \<and>
      TransactionID (compositeRecord.Output ((pre @ [r]) ! j)) = tx"
  proof cases
    case new
    then show ?thesis by simp
  next
    case old
    then show ?thesis using \<open>(k, j) \<in> set (OM tx) \<Longrightarrow> _\<close> by (simp add: nth_append)
  qed
qed

lemma addressesOf_snoc:
  "addressesOf oid (pre @ [r]) =
     (if Output.ID (compositeRecord.Output r) = oid
      then insert (OutputAddress.Address (compositeRecord.OutputAddress r)) (addressesOf oid pre)
      else addressesOf oid pre)"
  by (auto simp: addressesOf_def)

lemma addrsInv_step:
  assumes inv: "addrsInv AM pre"
    and AM': "\<And>oid. AM' oid =
      (if oid = Output.ID (compositeRecord.Output r)
       then List.insert (OutputAddress.Address (compositeRecord.OutputAddress r)) (AM oid)
       else AM oid)"
  shows "addrsInv AM' (pre @ [r])"
  using inv by (auto simp: addrsInv_def AM' addressesOf_snoc)

lemma keysInv_step:
  assumes inv: "keysInv key KM pre"
    and KM': "\<And>tx. KM' tx =
      (if tx = key (compositeRecord.Output r)
       then AList.update (Output.ID (compositeRecord.Output r)) v (KM tx)
       else KM tx)"
  shows "keysInv key KM' (pre @ [r])"
  unfolding keysInv_def
proof (intro allI conjI)
  fix tx
  show "distinct (map fst (KM' tx))"
    using inv by (simp add: KM' keysInv_def distinct_update)
  have old: "set (map fst (KM tx)) =
      (\<lambda>x. Output.ID (compositeRecord.Output x)) `
        {x \<in> set pre. key (compositeRecord.Output x) = tx}"
    using inv by (simp add: keysInv_def)
  show "set (map fst (KM' tx)) =
      (\<lambda>x. Output.ID (compositeRecord.Output x)) `
        {x \<in> set (pre @ [r]). key (compositeRecord.Output x) = tx}"
  proof (cases "tx = key (compositeRecord.Output r)")
    case True
    have "set (map fst (KM' tx)) = insert (Output.ID (compositeRecord.Output r)) (set (map fst (KM tx)))"
      unfolding KM' using True by (auto simp: update_keys)
    also have "\<dots> = (\<lambda>x. Output.ID (compositeRecord.Output x)) `
        {x \<in> set (pre @ [r]). key (compositeRecord.Output x) = tx}"
      unfolding old using True by auto
    finally show ?thesis .
  next
    case False
    have "set (map fst (KM' tx)) = set (map fst (KM tx))"
      unfolding KM' using False by simp
    also have "\<dots> = (\<lambda>x. Output.ID (compositeRecord.Output x)) `
        {x \<in> set (pre @ [r]). key (compositeRecord.Output x) = tx}"
      unfolding old using False by auto
    finally show ?thesis .
  qed
qed

lemma dressInv_step:
  assumes "dressInv m pre"
    and "bigIntSetString (Amount (compositeRecord.Output r)) = Some amt"
  shows "dressInv (collectOutput (length pre) r amt m) (pre @ [r])"
  unfolding dressInv_def
proof (intro conjI)
  show "totalsInv TransactionID
      (lookupOrEmpty (outputTotalsMap (collectOutput (length pre) r amt m))) (pre @ [r])"
    using assms by (intro totalsInv_step[where TM = "lookupOrEmpty (outputTotalsMap m)"])
      (simp_all add: dressInv_def outputTotalsMap_collectOutput)
  show "totalsInv RedeemingTransactionID
      (lookupOrEmpty (inputTotalsMap (collectOutput (length pre) r amt m))) (pre @ [r])"
    using assms by (intro totalsInv_step[where TM = "lookupOrEmpty (inputTotalsMap m)"])
      (simp_all add: dressInv_def inputTotalsMap_collectOutput)
  show "inputsInv (lookupOrEmpty (inputsMap (collectOutput (length pre) r amt m))) (pre @ [r])"
    using assms by (intro inputsInv_step[where IM = "lookupOrEmpty (inputsMap m)"])
      (simp_all add: dressInv_def inputsMap_collectOutput)
  show "outputsInv (lookupOrEmpty (outputsMap (collectOutput (length pre) r amt m))) (pre @ [r])"
    using assms by (intro outputsInv_step[where OM = "lookupOrEmpty (outputsMap m)"])
      (simp_all add: dressInv_def outputsMap_collectOutput)
  show "keysInv RedeemingTransactionID
      (lookupOrEmpty (inputsMap (collectOutput (length pre) r amt m))) (pre @ [r])"
    using assms by (intro keysInv_step[where KM = "lookupOrEmpty (inputsMap m)"])
      (simp_all add: dressInv_def inputsMap_collectOutput)
  show "keysInv TransactionID
      (lookupOrEmpty (outputsMap (collectOutput (length pre) r amt m))) (pre @ [r])"
    using assms by (intro keysInv_step[where KM = "lookupOrEmpty (outputsMap m)"])
      (simp_all add: dressInv_def outputsMap_collectOutput)
  show "addrsInv (lookupOrEmpty (outputAddrs (collectOutput (length pre) r amt m))) (pre @ [r])"
    using assms by (intro addrsInv_step[where AM = "lookupOrEmpty (outputAddrs m)"])
      (simp_all add: dressInv_def outputAddrs_collectOutput)
qed

lemma collectOutputs_inv:
  "collectOutputs (length pre) rows m = Inr m' \<Longrightarrow> dressInv m pre \<Longrightarrow> dressInv m' (pre @ rows)"
proof (induction rows arbitrary: pre m)
  case Nil
  then show ?case by simp
next
  case (Cons r rows)
  from Cons.prems(1) obtain amt where
    amt: "bigIntSetString (Amount (compositeRecord.Output r)) = Some amt"
    and rec: "collectOutputs (Suc (length pre)) rows (collectOutput (length pre) r amt m) = Inr m'"
    by (auto split: option.splits)
  have "dressInv (collectOutput (length pre) r amt m) (pre @ [r])"
    using Cons.prems(2) amt by (rule dressInv_step)
  moreover have "collectOutputs (length (pre @ [r])) rows (collectOutput (length pre) r amt m) = Inr m'"
    using rec by simp
  ultimately have "dressInv m' ((pre @ [r]) @ rows)" by (rule Cons.IH[rotated])
  then show ?case by simp
qed

lemma collectOutputs_parsed:
  "collectOutputs i rows m = Inr m' \<Longrightarrow>
   \<forall>r\<in>set rows. bigIntSetString (Amount (compositeRecord.Output r)) \<noteq> None"
  by (induction rows arbitrary: i m) (auto split: option.splits)

lemma collectOutputs_total:
  "\<forall>r\<in>set rows. bigIntSetString (Amount (compositeRecord.Output r)) \<noteq> None \<Longrightarrow>
   \<exists>m'. collectOutputs i rows m = Inr m'"
  by (induction rows arbitrary: i m) (auto split: option.splits)

lemma dressedRow_fields [simp]:
  "Output.ID (compositeRecord.Output (dressedRow addrs r)) = Output.ID (compositeRecord.Output r)"
  "compositeRecord.OutputAddress (dressedRow addrs r) = compositeRecord.OutputAddress r"
  "RedeemingTransactionID (compositeRecord.Output (dressedRow addrs r)) =
     RedeemingTransactionID (compositeRecord.Output r)"
  "Output.Addresses (compositeRecord.Output (dressedRow addrs r)) =
     lookupOrEmpty addrs (Output.ID (compositeRecord.Output r))"
  by (simp_all add: dressedRow_def)

lemma fst_collectAddresses:
  "fst (collectAddresses addrs (rs, ins) j) = rs[j := dressedRow addrs (rs ! j)]"
  by (simp add: collectAddresses_def Let_def dressedRow_def split: option.splits)

lemma snd_collectAddresses:
  "lookupOrEmpty (snd (collectAddresses addrs (rs, ins) j)) tx =
     (if OutputAddress.Signature (compositeRecord.OutputAddress (rs ! j)) \<noteq> [] \<and>
         tx = RedeemingTransactionID (compositeRecord.Output (rs ! j))
      then appendCreds (rs[j := dressedRow addrs (rs ! j)])
             (OutputAddress.OutputID (compositeRecord.OutputAddress (rs ! j)))
             (credentialOf (rs ! j)) (lookupOrEmpty ins tx)
      else lookupOrEmpty ins tx)"
proof (cases "map_of ins (RedeemingTransactionID (compositeRecord.Output (rs ! j)))")
  case None
  then have "lookupOrEmpty ins (RedeemingTransactionID (compositeRecord.Output (rs ! j))) = []"
    by (simp add: lookupOrEmpty_def)
  then show ?thesis using None
    by (auto simp: collectAddresses_def Let_def)
next
  case (Some txInputs)
  then have "lookupOrEmpty ins (RedeemingTransactionID (compositeRecord.Output (rs ! j))) = txInputs"
    by (simp add: lookupOrEmpty_def)
  then show ?thesis using Some
    by (auto simp: collectAddresses_def Let_def lookupOrEmpty_update credentialOf_def
        dressedRow_def)
qed

lemma appendCreds_map:
  assumes "distinct (map fst al)"
    and "\<And>k ref. (k, ref) \<in> set al \<Longrightarrow>
           Output.ID (compositeRecord.Output (rs ! refOutput ref)) = k"
  shows "appendCreds rs oid c al =
     map (\<lambda>(k, ref). (k, if k = oid then ref\<lparr>refCreds := refCreds ref @ [c]\<rparr> else ref)) al"
  using assms
proof (induction al)
  case Nil
  then show ?case by simp
next
  case (Cons e al)
  obtain k ref where e: "e = (k, ref)" by (cases e)
  have idk: "Output.ID (compositeRecord.Output (rs ! refOutput ref)) = k"
    using Cons.prems(2)[of k ref] e by simp
  show ?case
  proof (cases "k = oid")
    case True
    have "\<forall>e'\<in>set al. fst e' \<noteq> oid"
      using Cons.prems(1) e True by (auto simp: image_iff)
    then have "map (\<lambda>(k, ref). (k, if k = oid then ref\<lparr>refCreds := refCreds ref @ [c]\<rparr> else ref)) al = al"
      by (intro map_idI) (auto split: prod.splits)
    then show ?thesis using e idk True by simp
  next
    case False
    have "appendCreds rs oid c al =
        map (\<lambda>(k, ref). (k, if k = oid then ref\<lparr>refCreds := refCreds ref @ [c]\<rparr> else ref)) al"
      using Cons.prems by (intro Cons.IH) auto
    then show ?thesis using e idk False by simp
  qed
qed

lemma update_take_drop:
  "j < length xs \<Longrightarrow>
   (map f (take j xs) @ drop j xs)[j := f (xs ! j)] = map f (take (Suc j) xs) @ drop (Suc j) xs"
proof (induction xs arbitrary: j)
  case Nil
  then show ?case by simp
next
  case (Cons x xs)
  then show ?case by (cases j) simp_all
qed

lemma pass2_Suc:
  "pass2 addrs rows ins (Suc j) = collectAddresses addrs (pass2 addrs rows ins j) j"
  by (simp add: pass2_def)

lemma fst_pass2:
  "j \<le> length rows \<Longrightarrow>
   fst (pass2 addrs rows ins j) = map (dressedRow addrs) (take j rows) @ drop j rows"
proof (induction j)
  case 0
  then show ?case by (simp add: pass2_def)
next
  case (Suc j)
  then have IH: "fst (pass2 addrs rows ins j) = map (dressedRow addrs) (take j rows) @ drop j rows"
    and lt: "j < length rows" by simp_all
  obtain rs i where st: "pass2 addrs rows ins j = (rs, i)" by (cases "pass2 addrs rows ins j")
  have rs: "rs = map (dressedRow addrs) (take j rows) @ drop j rows" using IH st by simp
  have nth: "rs ! j = rows ! j" using lt by (simp add: rs nth_append)
  have "rs[j := dressedRow addrs (rows ! j)] =
      map (dressedRow addrs) (take (Suc j) rows) @ drop (Suc j) rows"
    unfolding rs using lt by (rule update_take_drop)
  then show ?case by (simp add: pass2_Suc st fst_collectAddresses nth)
qed

lemma nth_partly_dressed:
  "p < length rows \<Longrightarrow>
   Output.ID (compositeRecord.Output ((map (dressedRow addrs) (take j rows) @ drop j rows) ! p)) =
   Output.ID (compositeRecord.Output (rows ! p))"
  by (cases "p < j") (auto simp: nth_append min_def)

lemma credsFor_take_Suc:
  "j < length rows \<Longrightarrow>
   credsFor tx k (take (Suc j) rows) =
     credsFor tx k (take j rows) @
       (if OutputAddress.Signature (compositeRecord.OutputAddress (rows ! j)) \<noteq> [] \<and>
           RedeemingTransactionID (compositeRecord.Output (rows ! j)) = tx \<and>
           OutputAddress.OutputID (compositeRecord.OutputAddress (rows ! j)) = k
        then [credentialOf (rows ! j)] else [])"
  by (simp add: credsFor_def take_Suc_conv_app_nth)

lemma snd_pass2:
  assumes inv: "inputsInv (lookupOrEmpty ins) rows"
  shows "j \<le> length rows \<Longrightarrow>
     lookupOrEmpty (snd (pass2 addrs rows ins j)) tx =
       map (\<lambda>(k, ref). (k, ref\<lparr>refCreds := credsFor tx k (take j rows)\<rparr>)) (lookupOrEmpty ins tx)"
proof (induction j arbitrary: tx)
  case 0
  have "\<forall>e\<in>set (lookupOrEmpty ins tx). refCreds (snd e) = []"
    using inv by (auto simp: inputsInv_def)
  then have "map (\<lambda>(k, ref). (k, ref\<lparr>refCreds := credsFor tx k []\<rparr>)) (lookupOrEmpty ins tx) =
      lookupOrEmpty ins tx"
    by (intro map_idI) (auto simp: credsFor_def split: prod.splits)
  then show ?case by (simp add: pass2_def)
next
  case (Suc j)
  then have lt: "j < length rows" and le: "j \<le> length rows" by simp_all
  obtain rs i where st: "pass2 addrs rows ins j = (rs, i)" by (cases "pass2 addrs rows ins j")
  have rs: "rs = map (dressedRow addrs) (take j rows) @ drop j rows"
    using fst_pass2[OF le, of addrs ins] st by simp
  have nth: "rs ! j = rows ! j" using lt by (simp add: rs nth_append)
  have rs': "rs[j := dressedRow addrs (rs ! j)] =
      map (dressedRow addrs) (take (Suc j) rows) @ drop (Suc j) rows"
    unfolding nth unfolding rs using lt by (rule update_take_drop)
  have IH: "lookupOrEmpty i tx =
      map (\<lambda>(k, ref). (k, ref\<lparr>refCreds := credsFor tx k (take j rows)\<rparr>)) (lookupOrEmpty ins tx)"
    for tx using Suc.IH[OF le, of tx] st by simp
  let ?sig = "OutputAddress.Signature (compositeRecord.OutputAddress (rows ! j)) \<noteq> []"
  let ?red = "RedeemingTransactionID (compositeRecord.Output (rows ! j))"
  let ?oid = "OutputAddress.OutputID (compositeRecord.OutputAddress (rows ! j))"
  have step: "lookupOrEmpty (snd (pass2 addrs rows ins (Suc j))) tx =
     (if ?sig \<and> tx = ?red
      then appendCreds (rs[j := dressedRow addrs (rs ! j)]) ?oid (credentialOf (rows ! j))
             (lookupOrEmpty i tx)
      else lookupOrEmpty i tx)"
    using snd_collectAddresses[of addrs rs i j tx] by (simp add: pass2_Suc st nth)
  show ?case
  proof (cases "?sig \<and> tx = ?red")
    case False
    then have "credsFor tx k (take (Suc j) rows) = credsFor tx k (take j rows)" for k
      using credsFor_take_Suc[OF lt, of tx k] by auto
    moreover have "lookupOrEmpty (snd (pass2 addrs rows ins (Suc j))) tx = lookupOrEmpty i tx"
      unfolding step using False by (rule if_not_P)
    ultimately show ?thesis by (simp only: IH)
  next
    case True
    have d: "distinct (map fst (lookupOrEmpty i tx))"
      using inv by (simp add: IH inputsInv_def o_def split_def)
    have ptr: "Output.ID (compositeRecord.Output
                 (rs[j := dressedRow addrs (rs ! j)] ! refOutput ref)) = k"
      if "(k, ref) \<in> set (lookupOrEmpty i tx)" for k ref
    proof -
      from that obtain ref0 where m0: "(k, ref0) \<in> set (lookupOrEmpty ins tx)"
        and r: "ref = ref0\<lparr>refCreds := credsFor tx k (take j rows)\<rparr>"
        by (auto simp: IH)
      have "refOutput ref0 < length rows"
        "Output.ID (compositeRecord.Output (rows ! refOutput ref0)) = k"
        using inv m0 by (auto simp: inputsInv_def)
      then show ?thesis
        unfolding rs' using nth_partly_dressed[of "refOutput ref0" rows addrs "Suc j"]
        by (simp add: r)
    qed
    have "appendCreds (rs[j := dressedRow addrs (rs ! j)]) ?oid (credentialOf (rows ! j))
            (lookupOrEmpty i tx) =
          map (\<lambda>(k, ref). (k, if k = ?oid
                 then ref\<lparr>refCreds := refCreds ref @ [credentialOf (rows ! j)]\<rparr> else ref))
            (lookupOrEmpty i tx)"
      using d ptr by (rule appendCreds_map)
    also have "\<dots> =
        map (\<lambda>(k, ref). (k, ref\<lparr>refCreds := credsFor tx k (take (Suc j) rows)\<rparr>))
          (lookupOrEmpty ins tx)"
      using True by (simp add: IH credsFor_take_Suc[OF lt] o_def split_def)
    finally show ?thesis using True step by simp
  qed
qed

lemma filter_key_unique:
  "distinct (map fst al) \<Longrightarrow>
   filter (\<lambda>e. fst e = k) al = (case map_of al k of None \<Rightarrow> [] | Some v \<Rightarrow> [(k, v)])"
proof (induction al)
  case Nil
  then show ?case by simp
next
  case (Cons e al)
  show ?case
  proof (cases "fst e = k")
    case True
    then have "k \<notin> fst ` set al" using Cons.prems by auto
    then have "filter (\<lambda>e. fst e = k) al = []" by (auto simp: filter_empty_conv)
    then show ?thesis using True by (cases e) simp
  next
    case False
    then show ?thesis using Cons by (cases e) auto
  qed
qed

lemma dressRows_closed:
  assumes "dressRows rows txs = Inr txs'"
  shows "\<exists>m. collectOutputs 0 rows emptyDressMaps = Inr m \<and> dressInv m rows \<and>
     txs' = map (attachDressing (map (dressedRow (outputAddrs m)) rows)
                   (m\<lparr>inputsMap := snd (pass2 (outputAddrs m) rows (inputsMap m) (length rows))\<rparr>))
              txs"
proof -
  from assms obtain m where m: "collectOutputs 0 rows emptyDressMaps = Inr m"
    by (auto simp: dressRows_def split: sum.splits)
  have inv: "dressInv m rows"
    using collectOutputs_inv[of "[]" rows emptyDressMaps m] m dressInv_empty by simp
  have "fst (pass2 (outputAddrs m) rows (inputsMap m) (length rows)) =
      map (dressedRow (outputAddrs m)) rows"
    using fst_pass2[of "length rows" rows "outputAddrs m" "inputsMap m"] by simp
  then have "txs' = map (attachDressing (map (dressedRow (outputAddrs m)) rows)
                   (m\<lparr>inputsMap := snd (pass2 (outputAddrs m) rows (inputsMap m) (length rows))\<rparr>))
              txs"
    using assms m by (simp add: dressRows_def Let_def pass2_def)
  then show ?thesis using m inv by blast
qed

lemma dressRows_returns:
  "\<forall>r\<in>set rows. bigIntSetString (Amount (compositeRecord.Output r)) \<noteq> None \<Longrightarrow>
   \<exists>txs'. dressRows rows txs = Inr txs'"
  using collectOutputs_total[of rows 0 emptyDressMaps]
  by (auto simp: dressRows_def Let_def)

lemma dressTransactions_rows:
  "loadTransactionOutputs db (map Transaction.ID txs) = Inr outs \<Longrightarrow>
   loadTransactionInputs db (map Transaction.ID txs) = Inr ins \<Longrightarrow>
   txs \<noteq> [] \<Longrightarrow>
   snd (dressTransactions db txs) = dressRows (outs @ ins) txs"
  by (simp add: dressTransactions_def Let_def)

lemma totals_closed:
  "totalsInv key TM rows \<Longrightarrow>
   map_of (map (\<lambda>(k, v). (k, bigIntString v)) (TM tx)) a = totalFor key tx a rows"
  by (simp add: map_of_map totalsInv_def totalFor_def)

lemma dressRows_totals:
  assumes "dressRows rows txs = Inr txs'" and "i < length txs"
  shows "map_of (InputTotals (txs' ! i)) a =
           totalFor RedeemingTransactionID (Transaction.ID (txs ! i)) a rows"
    and "map_of (OutputTotals (txs' ! i)) a =
           totalFor TransactionID (Transaction.ID (txs ! i)) a rows"
proof -
  from dressRows_closed[OF assms(1)] obtain m where
    inv: "dressInv m rows" and
    txs': "txs' = map (attachDressing (map (dressedRow (outputAddrs m)) rows)
                   (m\<lparr>inputsMap := snd (pass2 (outputAddrs m) rows (inputsMap m) (length rows))\<rparr>))
              txs"
    by blast
  have i: "totalsInv RedeemingTransactionID (lookupOrEmpty (inputTotalsMap m)) rows"
    and o: "totalsInv TransactionID (lookupOrEmpty (outputTotalsMap m)) rows"
    using inv by (simp_all add: dressInv_def)
  show "map_of (InputTotals (txs' ! i)) a =
           totalFor RedeemingTransactionID (Transaction.ID (txs ! i)) a rows"
    using totals_closed[OF i] assms(2) by (simp add: txs' attachDressing_def)
  show "map_of (OutputTotals (txs' ! i)) a =
           totalFor TransactionID (Transaction.ID (txs ! i)) a rows"
    using totals_closed[OF o] assms(2) by (simp add: txs' attachDressing_def)
qed

lemma dressRows_input:
  assumes "dressRows rows txs = Inr txs'" and "i < length txs" and "r \<in> set rows"
    and "RedeemingTransactionID (compositeRecord.Output r) = Transaction.ID (txs ! i)"
  shows "\<exists>inp. filter (\<lambda>inp. Output.ID (Input.Output inp) = Output.ID (compositeRecord.Output r))
                 (attachedInputs (txs ! i) (txs' ! i)) = [inp] \<and>
           distinct (Output.Addresses (Input.Output inp)) \<and>
           set (Output.Addresses (Input.Output inp)) =
             addressesOf (Output.ID (compositeRecord.Output r)) rows \<and>
           Creds inp =
             credsFor (Transaction.ID (txs ! i)) (Output.ID (compositeRecord.Output r)) rows"
proof -
  let ?T = "Transaction.ID (txs ! i)"
  let ?oid = "Output.ID (compositeRecord.Output r)"
  from dressRows_closed[OF assms(1)] obtain m where
    inv: "dressInv m rows" and
    txs': "txs' = map (attachDressing (map (dressedRow (outputAddrs m)) rows)
                   (m\<lparr>inputsMap := snd (pass2 (outputAddrs m) rows (inputsMap m) (length rows))\<rparr>))
              txs"
    by blast
  let ?IM = "lookupOrEmpty (inputsMap m) ?T"
  let ?H = "\<lambda>e. \<lparr>Input.Output =
                 compositeRecord.Output (dressedRow (outputAddrs m) (rows ! refOutput (snd e))),
               Creds = credsFor ?T (fst e) rows\<rparr>"
  have ii: "inputsInv (lookupOrEmpty (inputsMap m)) rows"
    and ki: "keysInv RedeemingTransactionID (lookupOrEmpty (inputsMap m)) rows"
    and ai: "addrsInv (lookupOrEmpty (outputAddrs m)) rows"
    using inv by (simp_all add: dressInv_def)
  have d: "distinct (map fst ?IM)" using ii by (simp add: inputsInv_def)
  have ref: "refOutput ref < length rows \<and>
      Output.ID (compositeRecord.Output (rows ! refOutput ref)) = k"
    if "(k, ref) \<in> set ?IM" for k ref
    using ii that by (auto simp: inputsInv_def)
  have "attachedInputs (txs ! i) (txs' ! i) =
      map (\<lambda>(k, input).
             \<lparr>Input.Output =
                compositeRecord.Output (map (dressedRow (outputAddrs m)) rows ! refOutput input),
              Creds = refCreds input\<rparr>)
        (map (\<lambda>(k, ref). (k, ref\<lparr>refCreds := credsFor ?T k (take (length rows) rows)\<rparr>)) ?IM)"
    using assms(2) snd_pass2[OF ii, of "length rows" "outputAddrs m" ?T]
    by (simp add: txs' attachDressing_def attachedInputs_def)
  also have "\<dots> = map ?H ?IM"
    using ref by (auto simp: split_def)
  finally have att: "attachedInputs (txs ! i) (txs' ! i) = map ?H ?IM" .
  have "filter (\<lambda>inp. Output.ID (Input.Output inp) = ?oid) (map ?H ?IM) =
      map ?H (filter (\<lambda>e. fst e = ?oid) ?IM)"
    unfolding filter_map using ref by (intro arg_cong[where f = "map ?H"] filter_cong) auto
  also have "\<dots> = map ?H (case map_of ?IM ?oid of None \<Rightarrow> [] | Some v \<Rightarrow> [(?oid, v)])"
    using d by (simp add: filter_key_unique)
  finally have flt: "filter (\<lambda>inp. Output.ID (Input.Output inp) = ?oid)
      (attachedInputs (txs ! i) (txs' ! i)) =
      map ?H (case map_of ?IM ?oid of None \<Rightarrow> [] | Some v \<Rightarrow> [(?oid, v)])"
    unfolding att .
  have "?oid \<in> set (map fst ?IM)"
    using ki assms(3,4) unfolding keysInv_def by blast
  then obtain ref where some: "map_of ?IM ?oid = Some ref"
    by (metis map_of_eq_None_iff not_Some_eq set_map)
  then have "(?oid, ref) \<in> set ?IM" by (rule map_of_SomeD)
  then have id: "Output.ID (compositeRecord.Output (rows ! refOutput ref)) = ?oid"
    using ref by blast
  have "distinct (lookupOrEmpty (outputAddrs m) ?oid) \<and>
      set (lookupOrEmpty (outputAddrs m) ?oid) = addressesOf ?oid rows"
    using ai by (simp add: addrsInv_def)
  then show ?thesis
    unfolding flt some by (simp add: id)
qed

lemma dressRows_output:
  assumes "dressRows rows txs = Inr txs'" and "i < length txs" and "r \<in> set rows"
    and "TransactionID (compositeRecord.Output r) = Transaction.ID (txs ! i)"
  shows "\<exists>out. filter (\<lambda>out. Output.ID out = Output.ID (compositeRecord.Output r))
                 (attachedOutputs (txs ! i) (txs' ! i)) = [out] \<and>
           distinct (Output.Addresses out) \<and>
           set (Output.Addresses out) =
             addressesOf (Output.ID (compositeRecord.Output r)) rows"
proof -
  let ?T = "Transaction.ID (txs ! i)"
  let ?oid = "Output.ID (compositeRecord.Output r)"
  from dressRows_closed[OF assms(1)] obtain m where
    inv: "dressInv m rows" and
    txs': "txs' = map (attachDressing (map (dressedRow (outputAddrs m)) rows)
                   (m\<lparr>inputsMap := snd (pass2 (outputAddrs m) rows (inputsMap m) (length rows))\<rparr>))
              txs"
    by blast
  let ?OM = "lookupOrEmpty (outputsMap m) ?T"
  let ?H = "\<lambda>e. compositeRecord.Output (dressedRow (outputAddrs m) (rows ! snd e))"
  have oi: "outputsInv (lookupOrEmpty (outputsMap m)) rows"
    and ko: "keysInv TransactionID (lookupOrEmpty (outputsMap m)) rows"
    and ai: "addrsInv (lookupOrEmpty (outputAddrs m)) rows"
    using inv by (simp_all add: dressInv_def)
  have d: "distinct (map fst ?OM)" using ko by (simp add: keysInv_def)
  have ref: "j < length rows \<and> Output.ID (compositeRecord.Output (rows ! j)) = k"
    if "(k, j) \<in> set ?OM" for k j
    using oi that by (auto simp: outputsInv_def)
  have "attachedOutputs (txs ! i) (txs' ! i) =
      map (\<lambda>(k, j). compositeRecord.Output (map (dressedRow (outputAddrs m)) rows ! j)) ?OM"
    using assms(2) by (simp add: txs' attachDressing_def attachedOutputs_def)
  also have "\<dots> = map ?H ?OM"
    using ref by (auto simp: split_def)
  finally have att: "attachedOutputs (txs ! i) (txs' ! i) = map ?H ?OM" .
  have "filter (\<lambda>out. Output.ID out = ?oid) (map ?H ?OM) =
      map ?H (filter (\<lambda>e. fst e = ?oid) ?OM)"
    unfolding filter_map using ref by (intro arg_cong[where f = "map ?H"] filter_cong) auto
  also have "\<dots> = map ?H (case map_of ?OM ?oid of None \<Rightarrow> [] | Some v \<Rightarrow> [(?oid, v)])"
    using d by (simp add: filter_key_unique)
  finally have flt: "filter (\<lambda>out. Output.ID out = ?oid)
      (attachedOutputs (txs ! i) (txs' ! i)) =
      map ?H (case map_of ?OM ?oid of None \<Rightarrow> [] | Some v \<Rightarrow> [(?oid, v)])"
    unfolding att .
  have "?oid \<in> set (map fst ?OM)"
    using ko assms(3,4) unfolding keysInv_def by blast
  then obtain j where some: "map_of ?OM ?oid = Some j"
    by (metis map_of_eq_None_iff not_Some_eq set_map)
  then have "(?oid, j) \<in> set ?OM" by (rule map_of_SomeD)
  then have id: "Output.ID (compositeRecord.Output (rows ! j)) = ?oid"
    using ref by blast
  have "distinct (lookupOrEmpty (outputAddrs m) ?oid) \<and>
      set (lookupOrEmpty (outputAddrs m) ?oid) = addressesOf ?oid rows"
    using ai by (simp add: addrsInv_def)
  then show ?thesis
    unfolding flt some by (simp add: id)
qed

lemma dressTransactions_returns:
  assumes outs: "loadTransactionOutputs db (map Transaction.ID txs) = Inr outs"
    and ins: "loadTransactionInputs db (map Transaction.ID txs) = Inr ins"
    and parse: "\<forall>r\<in>set (outs @ ins). bigIntSetString (Amount (compositeRecord.Output r)) \<noteq> None"
    and ne: "txs \<noteq> []"
  shows "\<exists>txs'. snd (dressTransactions db txs) = Inr txs' \<and> dressRows (outs @ ins) txs = Inr txs'"
  using dressRows_returns[OF parse, of txs] dressTransactions_rows[OF outs ins ne] by auto

lemma amountOf_parsed:
  "bigIntSetString (Amount (compositeRecord.Output r)) \<noteq> None \<Longrightarrow>
   bigIntSetString (Amount (compositeRecord.Output r)) = Some (amountOf r)"
  by (auto simp: amountOf_def)

lemma sum_rowsFor_includes:
  "r \<in> set rows \<Longrightarrow> key (compositeRecord.Output r) = tx \<Longrightarrow>
   totalFor key tx (Output.AssetID (compositeRecord.Output r)) rows =
     Some (bigIntString (amountOf r +
       sum_list (map amountOf
         (remove1 r (rowsFor key tx (Output.AssetID (compositeRecord.Output r)) rows)))))"
proof -
  assume "r \<in> set rows" "key (compositeRecord.Output r) = tx"
  then have mem: "r \<in> set (rowsFor key tx (Output.AssetID (compositeRecord.Output r)) rows)"
    by (simp add: rowsFor_def)
  then have "rowsFor key tx (Output.AssetID (compositeRecord.Output r)) rows \<noteq> []" by auto
  then show ?thesis
    using sum_list_map_remove1[OF mem, of amountOf] by (simp add: totalFor_def)
qed

lemma dressSample_eval:
  "loadTransactionOutputs dressStorage ids =
     Inr (filter (\<lambda>r. TransactionID (compositeRecord.Output r) \<in> set ids) dressSampleRows)"
  "loadTransactionInputs dressStorage ids =
     Inr (filter (\<lambda>r. RedeemingTransactionID (compositeRecord.Output r) \<in> set ids) dressSampleRows)"
  by (simp_all add: dressStorage_def)

lemma sampleRow_fields [simp]:
  "TransactionID (compositeRecord.Output (sampleRow oid tx asset amount redeemer addr sig)) = tx"
  "RedeemingTransactionID (compositeRecord.Output (sampleRow oid tx asset amount redeemer addr sig)) =
     redeemer"
  "Output.ID (compositeRecord.Output (sampleRow oid tx asset amount redeemer addr sig)) = oid"
  "Output.AssetID (compositeRecord.Output (sampleRow oid tx asset amount redeemer addr sig)) = asset"
  "Amount (compositeRecord.Output (sampleRow oid tx asset amount redeemer addr sig)) = amount"
  "OutputAddress.Address (compositeRecord.OutputAddress (sampleRow oid tx asset amount redeemer addr sig)) =
     addr"
  "OutputAddress.Signature (compositeRecord.OutputAddress (sampleRow oid tx asset amount redeemer addr sig)) =
     sig"
  "OutputAddress.PublicKey (compositeRecord.OutputAddress (sampleRow oid tx asset amount redeemer addr sig)) =
     ''pk-'' @ addr"
  "OutputAddress.OutputID (compositeRecord.OutputAddress (sampleRow oid tx asset amount redeemer addr sig)) =
     oid"
  by (simp_all add: sampleRow_def sampleOutput_def)

lemma sampleRow_eq [simp]:
  "sampleRow oid tx asset amount redeemer addr sig =
   sampleRow oid' tx' asset' amount' redeemer' addr' sig' \<longleftrightarrow>
   oid = oid' \<and> tx = tx' \<and> asset = asset' \<and> amount = amount' \<and> redeemer = redeemer' \<and>
   addr = addr' \<and> sig = sig'"
  by (auto simp: sampleRow_def sampleOutput_def)

lemma addressesOf_Nil: "addressesOf oid [] = {}"
  by (simp add: addressesOf_def)

lemma addressesOf_Cons:
  "addressesOf oid (r # rows) =
     (if Output.ID (compositeRecord.Output r) = oid
      then insert (OutputAddress.Address (compositeRecord.OutputAddress r)) (addressesOf oid rows)
      else addressesOf oid rows)"
  by (auto simp: addressesOf_def)

lemma amountOf_five [simp]: "amountOf (sampleRow oid tx asset ''5'' redeemer addr sig) = 5"
  by (simp add: amountOf_def bigIntSetString_def natFromString_def digitVal_def)

section \<open>Properties of the transaction dressing engine\<close>

text \<open>
  Claim C1. When both row queries succeed and every amount of the merged rows parses,
  \<^verbatim>\<open>dressTransactions\<close> returns the batch, and for every transaction of the batch and every
  asset, \<^verbatim>\<open>InputTotals\<close> holds the decimal rendering of the sum of the amounts of the merged
  rows of that asset redeemed by the transaction, and \<^verbatim>\<open>OutputTotals\<close> that of the merged
  rows of that asset owned by it (no entry when there is no such row). In particular a row
  \<open>r\<close> of asset \<open>A\<close> owned by \<open>T1\<close> and redeemed by \<open>T2\<close>, both in the batch, is a summand of
  \<open>T1\<close>'s \<^verbatim>\<open>OutputTotals[A]\<close> and of \<open>T2\<close>'s \<^verbatim>\<open>InputTotals[A]\<close>. The sums run over the merged
  list, so a row returned by both queries counts once for each.
\<close>

theorem dressTransactions_totals:
  assumes outs: "loadTransactionOutputs db (map Transaction.ID txs) = Inr outs"
    and ins: "loadTransactionInputs db (map Transaction.ID txs) = Inr ins"
    and parse: "\<forall>r\<in>set (outs @ ins). bigIntSetString (Amount (compositeRecord.Output r)) \<noteq> None"
    and row: "r \<in> set (outs @ ins)"
    and owner: "i1 < length txs" "TransactionID (compositeRecord.Output r) = Transaction.ID (txs ! i1)"
    and redeemer: "i2 < length txs"
      "RedeemingTransactionID (compositeRecord.Output r) = Transaction.ID (txs ! i2)"
  shows "\<exists>txs'. snd (dressTransactions db txs) = Inr txs' \<and> length txs' = length txs \<and>
     (\<forall>i a. i < length txs \<longrightarrow>
        map_of (InputTotals (txs' ! i)) a =
          totalFor RedeemingTransactionID (Transaction.ID (txs ! i)) a (outs @ ins) \<and>
        map_of (OutputTotals (txs' ! i)) a =
          totalFor TransactionID (Transaction.ID (txs ! i)) a (outs @ ins)) \<and>
     bigIntSetString (Amount (compositeRecord.Output r)) = Some (amountOf r) \<and>
     map_of (OutputTotals (txs' ! i1)) (Output.AssetID (compositeRecord.Output r)) =
       Some (bigIntString (amountOf r +
         sum_list (map amountOf
           (remove1 r (rowsFor TransactionID (Transaction.ID (txs ! i1))
              (Output.AssetID (compositeRecord.Output r)) (outs @ ins)))))) \<and>
     map_of (InputTotals (txs' ! i2)) (Output.AssetID (compositeRecord.Output r)) =
       Some (bigIntString (amountOf r +
         sum_list (map amountOf
           (remove1 r (rowsFor RedeemingTransactionID (Transaction.ID (txs ! i2))
              (Output.AssetID (compositeRecord.Output r)) (outs @ ins))))))"
proof -
  have ne: "txs \<noteq> []" using owner(1) by auto
  from dressTransactions_returns[OF outs ins parse ne] obtain txs' where
    ret: "snd (dressTransactions db txs) = Inr txs'" and
    rows: "dressRows (outs @ ins) txs = Inr txs'"
    by blast
  have len: "length txs' = length txs" using rows by (rule dressRows_length)
  have all: "\<forall>i a. i < length txs \<longrightarrow>
        map_of (InputTotals (txs' ! i)) a =
          totalFor RedeemingTransactionID (Transaction.ID (txs ! i)) a (outs @ ins) \<and>
        map_of (OutputTotals (txs' ! i)) a =
          totalFor TransactionID (Transaction.ID (txs ! i)) a (outs @ ins)"
    using dressRows_totals[OF rows] by blast
  have p: "bigIntSetString (Amount (compositeRecord.Output r)) = Some (amountOf r)"
    using parse row by (intro amountOf_parsed) blast
  have o: "map_of (OutputTotals (txs' ! i1)) (Output.AssetID (compositeRecord.Output r)) =
       Some (bigIntString (amountOf r +
         sum_list (map amountOf
           (remove1 r (rowsFor TransactionID (Transaction.ID (txs ! i1))
              (Output.AssetID (compositeRecord.Output r)) (outs @ ins))))))"
    using dressRows_totals(2)[OF rows owner(1)] sum_rowsFor_includes[where key = TransactionID, OF row owner(2)] by simp
  have i: "map_of (InputTotals (txs' ! i2)) (Output.AssetID (compositeRecord.Output r)) =
       Some (bigIntString (amountOf r +
         sum_list (map amountOf
           (remove1 r (rowsFor RedeemingTransactionID (Transaction.ID (txs ! i2))
              (Output.AssetID (compositeRecord.Output r)) (outs @ ins))))))"
    using dressRows_totals(1)[OF rows redeemer(1)] sum_rowsFor_includes[where key = RedeemingTransactionID, OF row redeemer(2)] by simp
  from ret len all p o i show ?thesis by blast
qed

theorem dressTransactions_totals_witness:
  "\<exists>txs'. snd (dressTransactions dressStorage [sampleTransaction ''T1'', sampleTransaction ''T2'']) =
        Inr txs' \<and>
     map_of (OutputTotals (txs' ! 0)) ''A'' = Some ''20'' \<and>
     map_of (InputTotals (txs' ! 1)) ''A'' = Some ''20'' \<and>
     map_of (InputTotals (txs' ! 0)) ''A'' = None"
proof -
  let ?txs = "[sampleTransaction ''T1'', sampleTransaction ''T2'']"
  let ?r = "sampleRow ''O'' ''T1'' ''A'' ''5'' ''T2'' ''a1'' ''sig''"
  have ids: "map Transaction.ID ?txs = [''T1'', ''T2'']" by (simp add: sampleTransaction_def)
  have outs: "loadTransactionOutputs dressStorage (map Transaction.ID ?txs) = Inr dressSampleRows"
    unfolding ids dressSample_eval by (simp add: dressSampleRows_def)
  have ins: "loadTransactionInputs dressStorage (map Transaction.ID ?txs) = Inr dressSampleRows"
    unfolding ids dressSample_eval by (simp add: dressSampleRows_def)
  have parse: "\<forall>r\<in>set (dressSampleRows @ dressSampleRows).
      bigIntSetString (Amount (compositeRecord.Output r)) \<noteq> None"
    by (simp add: dressSampleRows_def bigIntSetString_def natFromString_def digitVal_def)
  have row: "?r \<in> set (dressSampleRows @ dressSampleRows)" by (simp add: dressSampleRows_def)
  have twenty: "bigIntString 20 = ''20''"
    by (simp add: bigIntString_def natString.simps digitChar_def)
  from dressTransactions_totals[OF outs ins parse row, of 0 1]
  obtain txs' where
    ret: "snd (dressTransactions dressStorage ?txs) = Inr txs'" and
    all: "\<forall>i a. i < length ?txs \<longrightarrow>
        map_of (InputTotals (txs' ! i)) a =
          totalFor RedeemingTransactionID (Transaction.ID (?txs ! i)) a
            (dressSampleRows @ dressSampleRows) \<and>
        map_of (OutputTotals (txs' ! i)) a =
          totalFor TransactionID (Transaction.ID (?txs ! i)) a (dressSampleRows @ dressSampleRows)"
    by (auto simp: sampleTransaction_def)
  have "map_of (OutputTotals (txs' ! 0)) ''A'' = Some ''20''"
    using all[rule_format, of 0 "''A''"]
    by (simp add: sampleTransaction_def totalFor_def rowsFor_def dressSampleRows_def twenty)
  moreover have "map_of (InputTotals (txs' ! 1)) ''A'' = Some ''20''"
    using all[rule_format, of 1 "''A''"]
    by (simp add: sampleTransaction_def totalFor_def rowsFor_def dressSampleRows_def twenty)
  moreover have "map_of (InputTotals (txs' ! 0)) ''A'' = None"
    using all[rule_format, of 0 "''A''"]
    by (simp add: sampleTransaction_def totalFor_def rowsFor_def dressSampleRows_def)
  ultimately show ?thesis using ret by blast
qed

text \<open>
  Claim C7. When both row queries succeed and every amount parses, \<^verbatim>\<open>dressTransactions\<close> returns
  the batch; if the merged rows of the output of row \<open>r\<close> carry exactly the two distinct
  addresses \<open>a1\<close> and \<open>a2\<close>, then the transaction of the batch that owns the output has
  exactly one attached output with that identifier, whose \<^verbatim>\<open>Addresses\<close> are \<open>a1\<close> and \<open>a2\<close>,
  each once; and the transaction of the batch that redeems it has exactly one attached
  input for that output, with the same two addresses, whose \<^verbatim>\<open>Creds\<close> hold, in row order,
  one credential (address, public key, signature) for every merged row that has a
  non-empty signature, is redeemed by that transaction and names the output in its
  \<^verbatim>\<open>OutputID\<close>, and nothing else. A row without a signature yields no credential.
\<close>

theorem dressTransactions_addresses_and_credentials:
  assumes outs: "loadTransactionOutputs db (map Transaction.ID txs) = Inr outs"
    and ins: "loadTransactionInputs db (map Transaction.ID txs) = Inr ins"
    and parse: "\<forall>r\<in>set (outs @ ins). bigIntSetString (Amount (compositeRecord.Output r)) \<noteq> None"
    and i: "i < length txs"
    and row: "r \<in> set (outs @ ins)"
    and two: "addressesOf (Output.ID (compositeRecord.Output r)) (outs @ ins) = {a1, a2}" "a1 \<noteq> a2"
  shows "\<exists>txs'. snd (dressTransactions db txs) = Inr txs' \<and>
     (TransactionID (compositeRecord.Output r) = Transaction.ID (txs ! i) \<longrightarrow>
        (\<exists>out. filter (\<lambda>out. Output.ID out = Output.ID (compositeRecord.Output r))
                 (attachedOutputs (txs ! i) (txs' ! i)) = [out] \<and>
               set (Output.Addresses out) = {a1, a2} \<and> length (Output.Addresses out) = 2)) \<and>
     (RedeemingTransactionID (compositeRecord.Output r) = Transaction.ID (txs ! i) \<longrightarrow>
        (\<exists>inp. filter (\<lambda>inp. Output.ID (Input.Output inp) = Output.ID (compositeRecord.Output r))
                 (attachedInputs (txs ! i) (txs' ! i)) = [inp] \<and>
               set (Output.Addresses (Input.Output inp)) = {a1, a2} \<and>
               length (Output.Addresses (Input.Output inp)) = 2 \<and>
               Creds inp =
                 credsFor (Transaction.ID (txs ! i)) (Output.ID (compositeRecord.Output r))
                   (outs @ ins)))"
proof -
  have ne: "txs \<noteq> []" using i by auto
  from dressTransactions_returns[OF outs ins parse ne] obtain txs' where
    ret: "snd (dressTransactions db txs) = Inr txs'" and
    rows: "dressRows (outs @ ins) txs = Inr txs'"
    by blast
  have len2: "length xs = 2" if "distinct xs" "set xs = {a1, a2}" for xs :: "string list"
    using that two(2) distinct_card[of xs] by simp
  have o: "\<exists>out. filter (\<lambda>out. Output.ID out = Output.ID (compositeRecord.Output r))
                 (attachedOutputs (txs ! i) (txs' ! i)) = [out] \<and>
               set (Output.Addresses out) = {a1, a2} \<and> length (Output.Addresses out) = 2"
    if "TransactionID (compositeRecord.Output r) = Transaction.ID (txs ! i)"
    using dressRows_output[OF rows i row that] len2 unfolding two(1) by blast
  have n: "\<exists>inp. filter (\<lambda>inp. Output.ID (Input.Output inp) = Output.ID (compositeRecord.Output r))
                 (attachedInputs (txs ! i) (txs' ! i)) = [inp] \<and>
               set (Output.Addresses (Input.Output inp)) = {a1, a2} \<and>
               length (Output.Addresses (Input.Output inp)) = 2 \<and>
               Creds inp =
                 credsFor (Transaction.ID (txs ! i)) (Output.ID (compositeRecord.Output r))
                   (outs @ ins)"
    if "RedeemingTransactionID (compositeRecord.Output r) = Transaction.ID (txs ! i)"
    using dressRows_input[OF rows i row that] len2 unfolding two(1) by blast
  from ret o n show ?thesis by blast
qed

theorem dressTransactions_addresses_and_credentials_witness:
  "\<exists>txs' inp.
     snd (dressTransactions dressStorage [sampleTransaction ''T2'']) = Inr txs' \<and>
     filter (\<lambda>inp. Output.ID (Input.Output inp) = ''O'')
       (attachedInputs (sampleTransaction ''T2'') (txs' ! 0)) = [inp] \<and>
     set (Output.Addresses (Input.Output inp)) = {''a1'', ''a2''} \<and>
     length (Output.Addresses (Input.Output inp)) = 2 \<and>
     Creds inp =
       [\<lparr>InputCredentials.Address = ''a1'', PublicKey = ''pk-a1'', Signature = ''sig''\<rparr>]"
proof -
  let ?txs = "[sampleTransaction ''T2'']"
  let ?r = "sampleRow ''O'' ''T1'' ''A'' ''5'' ''T2'' ''a1'' ''sig''"
  have ids: "map Transaction.ID ?txs = [''T2'']" by (simp add: sampleTransaction_def)
  have outs: "loadTransactionOutputs dressStorage (map Transaction.ID ?txs) = Inr []"
    unfolding ids dressSample_eval by (simp add: dressSampleRows_def)
  have ins: "loadTransactionInputs dressStorage (map Transaction.ID ?txs) = Inr dressSampleRows"
    unfolding ids dressSample_eval by (simp add: dressSampleRows_def)
  have parse: "\<forall>r\<in>set ([] @ dressSampleRows).
      bigIntSetString (Amount (compositeRecord.Output r)) \<noteq> None"
    by (simp add: dressSampleRows_def bigIntSetString_def natFromString_def digitVal_def)
  have row: "?r \<in> set ([] @ dressSampleRows)" by (simp add: dressSampleRows_def)
  have two: "addressesOf (Output.ID (compositeRecord.Output ?r)) ([] @ dressSampleRows) =
      {''a1'', ''a2''}"
    by (simp add: addressesOf_Nil addressesOf_Cons dressSampleRows_def)
  have ne: "''a1'' \<noteq> ''a2''" by simp
  have creds: "credsFor ''T2'' ''O'' dressSampleRows =
      [\<lparr>InputCredentials.Address = ''a1'', PublicKey = ''pk-a1'', Signature = ''sig''\<rparr>]"
    by (simp add: credsFor_def dressSampleRows_def credentialOf_def)
  from dressTransactions_addresses_and_credentials[OF outs ins parse _ row two ne, of 0]
  show ?thesis
    by (simp add: sampleTransaction_def creds)
qed

end
